theory Spec2Isabelle
  imports Complex_Main
begin

section \<open>The finite-element module \<open>Pytopt/FE.py\<close>\<close>

text \<open>
  The class \<open>FE\<close> has a constructor and two solvers, \<open>fe\<close> (linear) and \<open>fe_nl\<close>
  (Newton-Raphson). Floating-point numbers are idealised as \<^typ>\<open>real\<close>; a numpy column
  vector of shape \<open>(n, 1)\<close> is a list of reals, a two-dimensional array a list of rows.
  Integer arrays (the connectivity \<open>edof\<close>, index lists) hold \<^typ>\<open>int\<close>.
  Every exception that the module or numpy raises on the way is a value of \<open>error\<close>.
  The element routine and the sparse solver \<open>spsolve\<close> are collaborators outside the
  module and are parameters of the model; the solver may fail, the element routine is a
  total function.
\<close>

datatype error =
    UnsupportedElementShape   \<comment> \<open>\<open>raise Exception('Unrecognized Element Shape, ...')\<close>\<close>
  | ValueError
  | IndexError
  | KeyError
  | SolverError

type_synonym vec = "real list"
type_synonym mat = "real list list"

definition bindE :: "error + 'a \<Rightarrow> ('a \<Rightarrow> error + 'b) \<Rightarrow> error + 'b" where
  \<comment> \<open>sequencing: an exception ends the computation\<close>
  "bindE m f = (case m of Inl e \<Rightarrow> Inl e | Inr x \<Rightarrow> f x)"

subsection \<open>numpy primitives\<close>

definition lookup :: "('k \<rightharpoonup> 'a) \<Rightarrow> 'k \<Rightarrow> error + 'a" where
  \<comment> \<open>\<open>d[k]\<close> on a dict\<close>
  "lookup d k = (case d k of None \<Rightarrow> Inl KeyError | Some a \<Rightarrow> Inr a)"

definition ncols :: "'a list list \<Rightarrow> nat" where
  \<comment> \<open>\<open>np.size(a, 1)\<close>, also \<open>len(a[0, :])\<close>: the width of a two-dimensional array, read
      off its first row (all rows of an array have one length)\<close>
  "ncols a = (case a of [] \<Rightarrow> 0 | r # _ \<Rightarrow> length r)"

definition py_index :: "nat \<Rightarrow> int \<Rightarrow> error + nat" where
  \<comment> \<open>an index into an axis of length \<open>n\<close>: negative indices count from the end\<close>
  "py_index n i =
     (if 0 \<le> i \<and> i < int n then Inr (nat i)
      else if - int n \<le> i \<and> i < 0 then Inr (nat (i + int n))
      else Inl IndexError)"

fun py_indices :: "nat \<Rightarrow> int list \<Rightarrow> error + nat list" where
  "py_indices n [] = Inr []"
| "py_indices n (i # is) =
     bindE (py_index n i) (\<lambda>j. bindE (py_indices n is) (\<lambda>js. Inr (j # js)))"

definition take_at :: "'a list \<Rightarrow> int list \<Rightarrow> error + 'a list" where
  \<comment> \<open>\<open>a[idx]\<close> for an index array \<open>idx\<close>\<close>
  "take_at a idx = bindE (py_indices (length a) idx) (\<lambda>js. Inr (map (\<lambda>j. a ! j) js))"

definition broadcast :: "nat \<Rightarrow> vec \<Rightarrow> error + vec" where
  \<comment> \<open>a column of \<open>m\<close> rows used where \<open>n\<close> rows are expected\<close>
  "broadcast n v =
     (if length v = n then Inr v
      else if length v = 1 then Inr (replicate n (hd v))
      else Inl ValueError)"

definition put_at :: "'a list \<Rightarrow> nat list \<Rightarrow> 'a list \<Rightarrow> 'a list" where
  \<comment> \<open>the writes of \<open>a[idx] = w\<close>, in order: the last write to an index wins\<close>
  "put_at a js w = fold (\<lambda>(j, y) acc. acc[j := y]) (zip js w) a"

definition iadd_at :: "vec \<Rightarrow> int list \<Rightarrow> vec \<Rightarrow> error + vec" where
  \<comment> \<open>\<open>a[idx] += v\<close>: read \<open>a[idx]\<close>, add, write back\<close>
  "iadd_at a idx v =
     bindE (py_indices (length a) idx) (\<lambda>js.
     bindE (broadcast (length js) v) (\<lambda>w.
       Inr (put_at a js (map (\<lambda>(j, y). a ! j + y) (zip js w)))))"

definition assign_at :: "vec \<Rightarrow> int list \<Rightarrow> vec \<Rightarrow> error + vec" where
  \<comment> \<open>\<open>a[idx] = v\<close>\<close>
  "assign_at a idx v =
     bindE (py_indices (length a) idx) (\<lambda>js.
     bindE (broadcast (length js) v) (\<lambda>w. Inr (put_at a js w)))"

definition np_sub :: "vec \<Rightarrow> vec \<Rightarrow> error + vec" where
  \<comment> \<open>\<open>a - b\<close> for two columns, with numpy's broadcasting of a one-row column\<close>
  "np_sub a b =
     (if length a = length b then Inr (map (\<lambda>(p, q). p - q) (zip a b))
      else if length a = 1 then Inr (map (\<lambda>q. hd a - q) b)
      else if length b = 1 then Inr (map (\<lambda>p. p - hd b) a)
      else Inl ValueError)"

definition reshape_to :: "nat \<Rightarrow> vec \<Rightarrow> error + vec" where
  \<comment> \<open>\<open>v.reshape(n,)\<close> and \<open>v.reshape(n, 1)\<close>: the size must be \<open>n\<close>\<close>
  "reshape_to n v = (if length v = n then Inr v else Inl ValueError)"

definition norm2 :: "vec \<Rightarrow> real" where
  \<comment> \<open>\<open>np.linalg.norm\<close> of a column\<close>
  "norm2 v = sqrt (sum_list (map (\<lambda>r. r * r) v))"

subsection \<open>Sparse matrices in coordinate format\<close>

record coo =
  coo_data :: "real list"
  coo_row :: "int list"
  coo_col :: "int list"
  coo_shape :: int

definition coo_matrix :: "real list \<Rightarrow> int list \<Rightarrow> int list \<Rightarrow> int \<Rightarrow> error + coo" where
  \<comment> \<open>\<open>coo_matrix((data, (row, col)), shape=(n, n))\<close>: the three lists have one length
      and every index lies in \<open>0..<n\<close>\<close>
  "coo_matrix d r c n =
     (if length r \<noteq> length d \<or> length c \<noteq> length d \<or> n < 0 then Inl ValueError
      else if list_all (\<lambda>i. 0 \<le> i \<and> i < n) r \<and> list_all (\<lambda>j. 0 \<le> j \<and> j < n) c
      then Inr \<lparr>coo_data = d, coo_row = r, coo_col = c, coo_shape = n\<rparr>
      else Inl ValueError)"

definition triplets :: "coo \<Rightarrow> (int \<times> int \<times> real) list" where
  "triplets K = zip (coo_row K) (zip (coo_col K) (coo_data K))"

definition tri_sum :: "(int \<times> int \<times> real) list \<Rightarrow> int \<Rightarrow> int \<Rightarrow> real" where
  \<comment> \<open>the sum of the values that a list of triplets stores at one position\<close>
  "tri_sum ts i j =
     sum_list (map (\<lambda>(r, c, v). v) (filter (\<lambda>(r, c, v). r = i \<and> c = j) ts))"

definition entry :: "coo \<Rightarrow> int \<Rightarrow> int \<Rightarrow> real" where
  \<comment> \<open>\<open>K.tocsc()[i, j]\<close>: the conversion sums the values stored at one position\<close>
  "entry K i j = tri_sum (triplets K) i j"

definition submatrix :: "coo \<Rightarrow> nat list \<Rightarrow> error + mat" where
  \<comment> \<open>\<open>K[np.ix_(free, free)]\<close>\<close>
  "submatrix K free =
     (if list_all (\<lambda>i. int i < coo_shape K) free
      then Inr (map (\<lambda>i. map (\<lambda>j. entry K (int i) (int j)) free) free)
      else Inl IndexError)"

subsection \<open>The model: \<open>FE.__init__\<close>\<close>

record FE =
  fe_mp :: "string \<rightharpoonup> real"
  fe_E :: real
  fe_v :: real
  ndof :: int
  nElem :: nat
  fe_K :: coo
  fe_U :: vec
  elemX :: mat
  elemY :: mat
  freedofs :: "nat list"
  edof :: "int list list"

definition np_max :: "int list \<Rightarrow> error + int" where
  \<comment> \<open>\<open>np.max\<close> raises on an array of size zero\<close>
  "np_max es = (case es of [] \<Rightarrow> Inl ValueError | e # es' \<Rightarrow> Inr (fold max es' e))"

definition node_of :: "int \<Rightarrow> int" where
  \<comment> \<open>\<open>np.ceil(d * 0.5) - 1\<close>, cast to int\<close>
  "node_of d = \<lceil>real_of_int d * 0.5\<rceil> - 1"

fun every_other :: "'a list \<Rightarrow> 'a list" where
  \<comment> \<open>the slice \<open>[0:8:2]\<close> of a list of at most 8 entries\<close>
  "every_other (a # b # xs) = a # every_other xs"
| "every_other [a] = [a]"
| "every_other [] = []"

fun elem_coords :: "vec \<Rightarrow> nat \<Rightarrow> int list list \<Rightarrow> error + mat" where
  \<comment> \<open>the loop filling \<open>elemX\<close> (or \<open>elemY\<close>), one row of width \<open>w\<close> per element\<close>
  "elem_coords nx w [] = Inr []"
| "elem_coords nx w (r # rs) =
     bindE (take_at nx (every_other (take 8 (map node_of r)))) (\<lambda>xs.
       if length xs \<noteq> w then Inl ValueError
       else bindE (elem_coords nx w rs) (\<lambda>m. Inr (xs # m)))"

definition setdiff1d :: "int \<Rightarrow> int list \<Rightarrow> nat list" where
  \<comment> \<open>\<open>np.setdiff1d(range(n), fixdofs)\<close>\<close>
  "setdiff1d n fixdofs = filter (\<lambda>i. int i \<notin> set fixdofs) [0..<nat n]"

definition init :: "int list list \<Rightarrow> (real \<times> real) list \<Rightarrow> (string \<rightharpoonup> real) \<Rightarrow> int list
    \<Rightarrow> error + FE" where
  "init edof0 coords mp0 fixdofs =
     bindE (lookup mp0 ''E'') (\<lambda>e.
     bindE (lookup mp0 ''nu'') (\<lambda>nu.
     bindE (np_max (concat edof0)) (\<lambda>n.
       if n < 0 then Inl ValueError
       else if ncols edof0 = 6 \<or> ncols edof0 = 8 then
         (let w = (if ncols edof0 = 6 then 3 else 4) in
          bindE (elem_coords (map fst coords) w edof0) (\<lambda>ex.
          bindE (elem_coords (map snd coords) w edof0) (\<lambda>ey.
            Inr \<lparr>fe_mp = mp0, fe_E = e, fe_v = nu, ndof = n, nElem = length edof0,
                 fe_K = \<lparr>coo_data = [], coo_row = [], coo_col = [], coo_shape = n\<rparr>,
                 fe_U = replicate (nat n) 0, elemX = ex, elemY = ey,
                 freedofs = setdiff1d n fixdofs, edof = edof0\<rparr>)))
       else Inl UnsupportedElementShape)))"

subsection \<open>The model: \<open>FE.fe\<close>\<close>

text \<open>
  The element routine is called as
  \<open>elementFun(ue, ex, ey, ep, mp, materialFun, eq)\<close> and returns the tuple
  \<open>(Ke, fint, fext, stress, epsilon)\<close>. The material routine and the body force are
  passed through unread. The penalty exponent is an integer.
\<close>

type_synonym ('m, 'q) element_fun =
  "vec \<Rightarrow> vec \<Rightarrow> vec \<Rightarrow> vec \<Rightarrow> (string \<rightharpoonup> real) \<Rightarrow> 'm \<Rightarrow> 'q \<Rightarrow> mat \<times> vec \<times> vec \<times> vec \<times> vec"

type_synonym solver = "mat \<Rightarrow> vec \<Rightarrow> error + vec"

definition nth_err :: "'a list \<Rightarrow> nat \<Rightarrow> error + 'a" where
  \<comment> \<open>\<open>a[i]\<close> for a loop counter \<open>i\<close>\<close>
  "nth_err a i = (if i < length a then Inr (a ! i) else Inl IndexError)"

fun foldE :: "('s \<Rightarrow> 'a \<Rightarrow> error + 's) \<Rightarrow> 'a list \<Rightarrow> 's \<Rightarrow> error + 's" where
  \<comment> \<open>a \<open>for\<close> loop whose body may raise\<close>
  "foldE f [] s = Inr s"
| "foldE f (a # as) s = bindE (f s a) (foldE f as)"

record asm =
  a_row :: "int list"
  a_col :: "int list"
  a_data :: "real list"
  a_fextGlobal :: vec
  a_fext_tilde :: vec

definition set_linear :: "vec \<Rightarrow> error + vec" where
  \<comment> \<open>\<open>epLin = ep.copy(); epLin[3] = 1\<close>\<close>
  "set_linear ep = (if length ep \<le> 3 then Inl IndexError else Inr (ep[3 := 1]))"

definition edofIndex :: "int list \<Rightarrow> int list" where
  \<comment> \<open>\<open>self.edof[elem, :] - 1\<close>\<close>
  "edofIndex r = map (\<lambda>d. d - 1) r"

definition fe_elem :: "FE \<Rightarrow> vec \<Rightarrow> int \<Rightarrow> vec \<Rightarrow> ('m, 'q) element_fun \<Rightarrow> 'm \<Rightarrow> 'q
    \<Rightarrow> asm \<Rightarrow> nat \<Rightarrow> error + asm" where
  \<comment> \<open>the body of the loop over the elements, lines 114 to 126\<close>
  "fe_elem self x SIMP_penal epLin elementFun materialFun eq st elem =
     bindE (nth_err (edof self) elem) (\<lambda>r.
     bindE (nth_err (elemX self) elem) (\<lambda>ex.
     bindE (nth_err (elemY self) elem) (\<lambda>ey.
       case elementFun (replicate (ncols (edof self)) 0) ex ey epLin (fe_mp self) materialFun eq
       of (Ke, fint, fext, stress, epsilon) \<Rightarrow>
     bindE (nth_err x elem) (\<lambda>xe.
     bindE (iadd_at (a_fextGlobal st) (edofIndex r) (map (\<lambda>f. f * xe) fext)) (\<lambda>fg.
     bindE (iadd_at (a_fext_tilde st) (edofIndex r) fext) (\<lambda>ft.
       Inr \<lparr>a_row = a_row st @ concat (replicate (length r) (edofIndex r)),
            a_col = a_col st @ concat (map (replicate (length r)) (edofIndex r)),
            a_data = a_data st @ map (\<lambda>k. k * power_int xe SIMP_penal) (concat Ke),
            a_fextGlobal = fg, a_fext_tilde = ft\<rparr>))))))"

definition asm0 :: "vec \<Rightarrow> asm" where
  \<comment> \<open>lines 106 to 110: empty triplet lists, a copy of \<open>F\<close>, zeros of the shape of \<open>F\<close>\<close>
  "asm0 F = \<lparr>a_row = [], a_col = [], a_data = [], a_fextGlobal = F,
             a_fext_tilde = replicate (length F) 0\<rparr>"

definition fe_assemble :: "FE \<Rightarrow> vec \<Rightarrow> int \<Rightarrow> vec \<Rightarrow> vec \<Rightarrow> ('m, 'q) element_fun \<Rightarrow> 'm \<Rightarrow> 'q
    \<Rightarrow> error + asm" where
  \<comment> \<open>lines 103 to 126: the settings and the loop\<close>
  "fe_assemble self x SIMP_penal F ep elementFun materialFun eq =
     bindE (set_linear ep) (\<lambda>epLin.
       foldE (fe_elem self x SIMP_penal epLin elementFun materialFun eq) [0..<nElem self]
         (asm0 F))"

definition solve_free :: "solver \<Rightarrow> coo \<Rightarrow> nat list \<Rightarrow> vec \<Rightarrow> error + vec" where
  \<comment> \<open>\<open>spsolve(K[np.ix_(free, free)], b[free]).reshape(len(free), 1)\<close>\<close>
  "solve_free spsolve K free b =
     bindE (submatrix K free) (\<lambda>A.
     bindE (take_at b (map int free)) (\<lambda>bf.
     bindE (spsolve A bf) (\<lambda>s. reshape_to (length free) s)))"

definition fe :: "FE \<Rightarrow> vec \<Rightarrow> int \<Rightarrow> vec \<Rightarrow> vec \<Rightarrow> ('m, 'q) element_fun \<Rightarrow> 'm \<Rightarrow> 'q \<Rightarrow> solver
    \<Rightarrow> error + FE \<times> vec \<times> vec \<times> vec \<times> coo" where
  \<comment> \<open>returns the object, whose \<open>U\<close> the call has written, and the tuple
      \<open>(U, fext_tilde, fextGlobal, K)\<close>\<close>
  "fe self x SIMP_penal F ep elementFun materialFun eq spsolve =
     bindE (fe_assemble self x SIMP_penal F ep elementFun materialFun eq) (\<lambda>st.
     bindE (coo_matrix (a_data st) (a_row st) (a_col st) (ndof self)) (\<lambda>K.
     bindE (solve_free spsolve K (freedofs self) (a_fextGlobal st)) (\<lambda>s.
     bindE (assign_at (fe_U self) (map int (freedofs self)) s) (\<lambda>U'.
       Inr (self\<lparr>fe_U := U'\<rparr>, U', a_fext_tilde st, a_fextGlobal st, K)))))"

subsection \<open>The model: \<open>FE.fe_nl\<close>\<close>

definition von_mises :: "vec \<Rightarrow> error + real" where
  \<comment> \<open>line 223; \<open>sig[5]\<close> raises on a stress with fewer than six components\<close>
  "von_mises s =
     (if length s < 6 then Inl IndexError
      else Inr (sqrt (((s ! 0 - s ! 1)\<^sup>2 + (s ! 1 - s ! 2)\<^sup>2 + (s ! 2 - s ! 0)\<^sup>2) / 2
                      + 3 * ((s ! 3)\<^sup>2 + (s ! 4)\<^sup>2 + (s ! 5)\<^sup>2))))"

definition hydrostatic :: "vec \<Rightarrow> real" where
  \<comment> \<open>line 224: \<open>sum(epsilon[:2]) / 3\<close>\<close>
  "hydrostatic eps = sum_list (take 2 eps) / 3"

record nl = asm +
  a_fintGlobal :: vec
  a_dR :: mat
  a_sig_VM :: vec
  a_eps_h :: vec

definition nl_elem :: "FE \<Rightarrow> vec \<Rightarrow> int \<Rightarrow> vec \<Rightarrow> ('m, 'q) element_fun \<Rightarrow> 'm \<Rightarrow> 'q
    \<Rightarrow> nl \<Rightarrow> nat \<Rightarrow> error + nl" where
  \<comment> \<open>the body of the loop over the elements inside a Newton iteration, lines 206 to 224;
      the displacement read is \<open>self.U\<close>\<close>
  "nl_elem self x SIMP_const ep elementFun materialFun eq st elem =
     bindE (nth_err (edof self) elem) (\<lambda>r.
     bindE (take_at (fe_U self) (edofIndex r)) (\<lambda>Ue.
     bindE (reshape_to (ncols (edof self)) Ue) (\<lambda>ue.
     bindE (nth_err (elemX self) elem) (\<lambda>ex.
     bindE (nth_err (elemY self) elem) (\<lambda>ey.
       case elementFun ue ex ey ep (fe_mp self) materialFun eq
       of (Ke, fint, fext, sg, epsilon) \<Rightarrow>
     bindE (nth_err x elem) (\<lambda>xe.
     bindE (iadd_at (a_fextGlobal st) (edofIndex r) (map (\<lambda>f. f * xe) fext)) (\<lambda>fg.
     bindE (iadd_at (a_fintGlobal st) (edofIndex r)
              (map (\<lambda>f. f * power_int xe SIMP_const) fint)) (\<lambda>fi.
     bindE (iadd_at (a_fext_tilde st) (edofIndex r) fext) (\<lambda>ft.
     bindE (reshape_to (ncols (edof self))
              (map (\<lambda>f. of_int SIMP_const * power_int xe (SIMP_const - 1) * f) fint)) (\<lambda>d1.
     bindE (reshape_to (ncols (edof self)) fext) (\<lambda>d2.
     bindE (von_mises sg) (\<lambda>vm.
       Inr \<lparr>a_row = a_row st @ concat (replicate (length r) (edofIndex r)),
            a_col = a_col st @ concat (map (replicate (length r)) (edofIndex r)),
            a_data = a_data st @ map (\<lambda>k. k * power_int xe SIMP_const) (concat Ke),
            a_fextGlobal = fg, a_fext_tilde = ft, a_fintGlobal = fi,
            a_dR = (a_dR st)[elem := map (\<lambda>(p, q). p - q) (zip d1 d2)],
            a_sig_VM = (a_sig_VM st)[elem := vm],
            a_eps_h = (a_eps_h st)[elem := hydrostatic epsilon]\<rparr>))))))))))))"

record newton =
  n_self :: FE
  n_err :: real
  n_TOL :: real
  n_newtonIt :: nat
  n_dR :: mat
  n_sig_VM :: vec
  n_eps_h :: vec
  n_fext_tilde :: vec
  n_fextGlobal :: vec
  n_K :: coo

definition nl0 :: "vec \<Rightarrow> newton \<Rightarrow> nl" where
  \<comment> \<open>lines 194 to 202: the accumulators at the start of a pass; \<open>sig_VM\<close> and \<open>eps_h\<close>
      are the arrays of the pass before\<close>
  "nl0 F st =
     \<lparr>a_row = [], a_col = [], a_data = [], a_fextGlobal = F,
      a_fext_tilde = replicate (length (fe_U (n_self st))) 0,
      a_fintGlobal = replicate (length (fe_U (n_self st))) 0,
      a_dR = replicate (nElem (n_self st)) (replicate (ncols (edof (n_self st))) 0),
      a_sig_VM = n_sig_VM st, a_eps_h = n_eps_h st\<rparr>"

definition nl_assemble :: "vec \<Rightarrow> int \<Rightarrow> vec \<Rightarrow> vec \<Rightarrow> ('m, 'q) element_fun \<Rightarrow> 'm \<Rightarrow> 'q
    \<Rightarrow> newton \<Rightarrow> error + nl" where
  \<comment> \<open>lines 194 to 224: the fresh accumulators and the loop over the elements\<close>
  "nl_assemble x SIMP_const F ep elementFun materialFun eq st =
     foldE (nl_elem (n_self st) x SIMP_const ep elementFun materialFun eq)
       [0..<nElem (n_self st)] (nl0 F st)"

definition new_TOL :: "vec \<Rightarrow> error + real" where
  \<comment> \<open>line 236; the built-in \<open>max\<close> raises on an empty sequence\<close>
  "new_TOL fg =
     (case map abs fg of
        [] \<Rightarrow> Inl ValueError
      | a # as \<Rightarrow> Inr (1 / 10 ^ 11 * max (fold max as a) (10 ^ 4)))"

definition newton_residual :: "vec \<Rightarrow> int \<Rightarrow> vec \<Rightarrow> vec \<Rightarrow> ('m, 'q) element_fun \<Rightarrow> 'm \<Rightarrow> 'q
    \<Rightarrow> newton \<Rightarrow> error + newton \<times> vec" where
  \<comment> \<open>lines 194 to 231 of a pass: the counter, the element loop, the stiffness matrix,
      the residual \<open>R\<close> and its norm over the free DOFs\<close>
  "newton_residual x SIMP_const F ep elementFun materialFun eq st =
     bindE (nl_assemble x SIMP_const F ep elementFun materialFun eq st) (\<lambda>a.
     bindE (coo_matrix (a_data a) (a_row a) (a_col a) (ndof (n_self st))) (\<lambda>K.
     bindE (np_sub (a_fintGlobal a) (a_fextGlobal a)) (\<lambda>R.
     bindE (take_at R (map int (freedofs (n_self st)))) (\<lambda>Rf.
       Inr (st\<lparr>n_err := norm2 Rf, n_newtonIt := n_newtonIt st + 1, n_dR := a_dR a,
               n_sig_VM := a_sig_VM a, n_eps_h := a_eps_h a,
               n_fext_tilde := a_fext_tilde a, n_fextGlobal := a_fextGlobal a,
               n_K := K\<rparr>, R)))))"

definition newton_update :: "solver \<Rightarrow> newton \<Rightarrow> vec \<Rightarrow> error + newton" where
  \<comment> \<open>lines 236 to 238 of a pass: the new tolerance and the Newton step on the free DOFs\<close>
  "newton_update spsolve st R =
     bindE (new_TOL (n_fextGlobal st)) (\<lambda>tol.
     bindE (take_at (fe_U (n_self st)) (map int (freedofs (n_self st)))) (\<lambda>Uf.
     bindE (solve_free spsolve (n_K st) (freedofs (n_self st)) R) (\<lambda>s.
     bindE (np_sub Uf s) (\<lambda>Unew.
     bindE (assign_at (fe_U (n_self st)) (map int (freedofs (n_self st))) Unew) (\<lambda>U'.
       Inr (st\<lparr>n_TOL := tol, n_self := (n_self st)\<lparr>fe_U := U'\<rparr>\<rparr>))))))"

definition newton_body :: "vec \<Rightarrow> int \<Rightarrow> vec \<Rightarrow> vec \<Rightarrow> ('m, 'q) element_fun \<Rightarrow> 'm \<Rightarrow> 'q \<Rightarrow> solver
    \<Rightarrow> newton \<Rightarrow> error + newton \<times> bool" where
  \<comment> \<open>one pass through the body of the \<open>while\<close> loop, lines 194 to 238; the flag says
      whether the pass left the loop by \<open>break\<close> (line 233)\<close>
  "newton_body x SIMP_const F ep elementFun materialFun eq spsolve st =
     bindE (newton_residual x SIMP_const F ep elementFun materialFun eq st) (\<lambda>(st1, R).
       if n_newtonIt st1 = 100 then Inr (st1, True)
       else bindE (newton_update spsolve st1 R) (\<lambda>st2. Inr (st2, False)))"

partial_function (option) newton_loop ::
    "(newton \<Rightarrow> error + newton \<times> bool) \<Rightarrow> newton \<Rightarrow> (error + newton) option" where
  \<comment> \<open>\<open>while err > TOL: body\<close>; \<open>None\<close> is a loop that never ends\<close>
  "newton_loop body st =
     (if n_err st > n_TOL st then
        (case body st of
           Inl e \<Rightarrow> Some (Inl e)
         | Inr (st', brk) \<Rightarrow> if brk then Some (Inr st') else newton_loop body st')
      else Some (Inr st))"

definition fe_nl :: "FE \<Rightarrow> vec \<Rightarrow> int \<Rightarrow> vec \<Rightarrow> vec \<Rightarrow> ('m, 'q) element_fun \<Rightarrow> 'm \<Rightarrow> 'q \<Rightarrow> solver
    \<Rightarrow> (error + FE \<times> vec \<times> mat \<times> vec \<times> vec \<times> vec \<times> vec \<times> nat list \<times> coo) option" where
  \<comment> \<open>returns the object and the tuple
      \<open>(U, dR, sig_VM, fext_tilde, fextGlobal, eps_h, freedofs, K)\<close>; the two \<open>print\<close>
      calls are left out\<close>
  "fe_nl self x SIMP_const F ep elementFun materialFun eq spsolve =
     (case fe self x SIMP_const F ep elementFun materialFun eq spsolve of
        Inl e \<Rightarrow> Some (Inl e)
      | Inr (self1, U1, fext_tilde, fextGlobal, K) \<Rightarrow>
          if ep ! 3 = 1
          then Some (Inr (self1, U1, [], [], fext_tilde, fextGlobal, replicate (length x) 0,
                          freedofs self1, K))
          else
            (case newton_loop
                    (newton_body x SIMP_const F ep elementFun materialFun eq spsolve)
                    \<lparr>n_self = self1, n_err = 10 ^ 9, n_TOL = 1 / 10 ^ 11, n_newtonIt = 0,
                     n_dR = [], n_sig_VM = replicate (length x) 0,
                     n_eps_h = replicate (length x) 0, n_fext_tilde = fext_tilde,
                     n_fextGlobal = fextGlobal, n_K = K\<rparr>
             of None \<Rightarrow> None
              | Some (Inl e) \<Rightarrow> Some (Inl e)
              | Some (Inr st) \<Rightarrow>
                  Some (Inr (n_self st, fe_U (n_self st), n_dR st, n_sig_VM st,
                             n_fext_tilde st, n_fextGlobal st, n_eps_h st,
                             freedofs (n_self st), n_K st))))"

subsection \<open>Concrete inputs\<close>

definition mp_c :: "string \<rightharpoonup> real" where
  \<comment> \<open>material parameters \<open>{'E': 1, 'nu': 0.3}\<close>\<close>
  "mp_c = [''E'' \<mapsto> 1, ''nu'' \<mapsto> 3 / 10]"

definition fe_c :: FE where
  \<comment> \<open>one triangle on the nodes (0, 0), (1, 0), (0, 1); all DOFs but the last are fixed\<close>
  "fe_c = \<lparr>fe_mp = mp_c, fe_E = 1, fe_v = 3 / 10, ndof = 6, nElem = 1,
           fe_K = \<lparr>coo_data = [], coo_row = [], coo_col = [], coo_shape = 6\<rparr>,
           fe_U = [0, 0, 0, 0, 0, 0], elemX = [[0, 1, 0]], elemY = [[0, 0, 1]],
           freedofs = [5], edof = [[1, 2, 3, 4, 5, 6]]\<rparr>"

definition eye :: "nat \<Rightarrow> mat" where
  "eye n = map (\<lambda>i. map (\<lambda>j. if i = j then 1 else 0) [0..<n]) [0..<n]"

definition elem_c :: "real \<Rightarrow> real \<Rightarrow> real \<Rightarrow> (unit, unit) element_fun" where
  \<comment> \<open>an element routine with unit stiffness, internal force \<open>a * ue\<close> plus \<open>b\<close> on the
      last DOF, body force \<open>g\<close> on the last DOF, and a fixed stress and strain\<close>
  "elem_c a b g ue ex ey ep mp0 m q =
     (eye 6, map (\<lambda>u. a * u) (butlast ue) @ [a * last ue + b], [0, 0, 0, 0, 0, g],
      [1, 2, 3, 0, 0, 0], [3, 6, 0, 0, 0, 0])"

definition solve_diag :: solver where
  \<comment> \<open>a solver that is exact on diagonal systems\<close>
  "solve_diag A b = Inr (map (\<lambda>i. b ! i / (A ! i ! i)) [0..<length b])"

definition st_c :: newton where
  \<comment> \<open>a state of the Newton loop on \<open>fe_c\<close> before its first pass\<close>
  "st_c = \<lparr>n_self = fe_c, n_err = 10 ^ 9, n_TOL = 1 / 10 ^ 11, n_newtonIt = 0,
            n_dR = [], n_sig_VM = [0], n_eps_h = [0], n_fext_tilde = [0, 0, 0, 0, 0, 0],
            n_fextGlobal = [0, 0, 0, 0, 0, 0],
            n_K = \<lparr>coo_data = [], coo_row = [], coo_col = [], coo_shape = 6\<rparr>\<rparr>"

definition a_c :: nl where
  "a_c = \<lparr>a_row = concat (replicate 6 [0, 1, 2, 3, 4, 5]),
           a_col = concat (map (replicate 6) [0, 1, 2, 3, 4, 5]),
           a_data = map (\<lambda>k. k * 8) (concat (eye 6)),
           a_fextGlobal = [0, 0, 0, 0, 0, 11], a_fext_tilde = [0, 0, 0, 0, 0, 5],
           a_fintGlobal = [0, 0, 0, 0, 0, 56], a_dR = [[0, 0, 0, 0, 0, 79]],
           a_sig_VM = [sqrt 3], a_eps_h = [3]\<rparr>"

definition asm_c :: asm where
  \<comment> \<open>what the element loop of \<open>fe\<close> leaves for density 2 and penalty 3 on \<open>fe_c\<close>\<close>
  "asm_c = \<lparr>a_row = concat (replicate 6 [0, 1, 2, 3, 4, 5]),
             a_col = concat (map (replicate 6) [0, 1, 2, 3, 4, 5]),
             a_data = map (\<lambda>k. k * 8) (concat (eye 6)),
             a_fextGlobal = [0, 0, 0, 0, 0, 11], a_fext_tilde = [0, 0, 0, 0, 0, 5]\<rparr>"

definition symmetric_elements ::
    "FE \<Rightarrow> vec \<Rightarrow> ('m, 'q) element_fun \<Rightarrow> 'm \<Rightarrow> 'q \<Rightarrow> bool" where
  \<comment> \<open>every stiffness matrix that the element routine returns to \<open>fe\<close> is a symmetric
      square matrix of the element's DOF count\<close>
  "symmetric_elements self epLin elementFun materialFun eq \<longleftrightarrow>
     (\<forall>e < nElem self.
        case elementFun (replicate (ncols (edof self)) 0) (elemX self ! e) (elemY self ! e)
               epLin (fe_mp self) materialFun eq
        of (Ke, fint, fext, stress, epsilon) \<Rightarrow>
          length Ke = length (edof self ! e)
          \<and> (\<forall>kr \<in> set Ke. length kr = length (edof self ! e))
          \<and> (\<forall>a < length Ke. \<forall>b < length Ke. Ke ! a ! b = Ke ! b ! a))"

definition K_c :: "real \<Rightarrow> coo" where
  \<comment> \<open>the stiffness matrix of \<open>fe_c\<close> with unit element stiffness scaled by \<open>s\<close>\<close>
  "K_c s = \<lparr>coo_data = map (\<lambda>k. k * s) (concat (eye 6)),
            coo_row = concat (replicate 6 [0, 1, 2, 3, 4, 5]),
            coo_col = concat (map (replicate 6) [0, 1, 2, 3, 4, 5]), coo_shape = 6\<rparr>"


definition nl_st0 :: "real \<Rightarrow> newton" where
  \<comment> \<open>the state in which \<open>fe_nl\<close> enters the loop on \<open>fe_c\<close>, after a linear solve
      that left \<open>u\<close> on the free DOF\<close>
  "nl_st0 u =
     \<lparr>n_self = fe_c\<lparr>fe_U := [0, 0, 0, 0, 0, u]\<rparr>, n_err = 10 ^ 9, n_TOL = 1 / 10 ^ 11,
      n_newtonIt = 0, n_dR = [], n_sig_VM = [0], n_eps_h = [0],
      n_fext_tilde = [0, 0, 0, 0, 0, 0], n_fextGlobal = [0, 0, 0, 0, 0, 1], n_K = K_c 1\<rparr>"

abbreviation (input) Fc :: vec where
  "Fc \<equiv> [0, 0, 0, 0, 0, 1]"
abbreviation (input) epc :: vec where
  "epc \<equiv> [1, 1, 1, 0]"

definition cv_state :: newton where
  \<comment> \<open>the state after the first pass with the element routine \<open>elem_c 1 (1 / 10 ^ 8) 0\<close>,
      whose internal force exceeds the displacement by \<open>1e-8\<close> on the last DOF\<close>
  "cv_state =
     \<lparr>n_self = fe_c\<lparr>fe_U := [0, 0, 0, 0, 0, 1 - 1 / 10 ^ 8]\<rparr>, n_err = 1 / 10 ^ 8,
      n_TOL = 1 / 10 ^ 7, n_newtonIt = 1, n_dR = [[0, 0, 0, 0, 0, 3 * (1 + 1 / 10 ^ 8)]],
      n_sig_VM = [sqrt 3], n_eps_h = [3], n_fext_tilde = [0, 0, 0, 0, 0, 0],
      n_fextGlobal = [0, 0, 0, 0, 0, 1], n_K = K_c 1\<rparr>"

section \<open>Properties\<close>

subsection \<open>Sequencing and indexing\<close>

lemma bindE_simps [simp]: "bindE (Inl e) f = Inl e" "bindE (Inr x) f = f x"
  by (simp_all add: bindE_def)

lemma bindE_Inr_iff: "bindE m f = Inr y \<longleftrightarrow> (\<exists>x. m = Inr x \<and> f x = Inr y)"
  by (cases m) simp_all

lemma bindE_Inl_iff: "bindE m f = Inl e \<longleftrightarrow> m = Inl e \<or> (\<exists>x. m = Inr x \<and> f x = Inl e)"
  by (cases m) simp_all

lemma py_indices_error: "py_indices n is = Inl e \<Longrightarrow> e = IndexError"
  by (induction "is") (auto simp: bindE_Inl_iff py_index_def split: if_splits)

lemma take_at_error: "take_at a is = Inl e \<Longrightarrow> e = IndexError"
  by (auto simp: take_at_def bindE_Inl_iff dest: py_indices_error)

lemma py_indices_ok:
  "\<forall>i \<in> set is. - int n \<le> i \<and> i < int n \<Longrightarrow>
     \<exists>js. py_indices n is = Inr js \<and> length js = length is"
  by (induction "is") (auto simp: py_index_def)

lemma take_at_ok:
  "\<forall>i \<in> set is. - int (length a) \<le> i \<and> i < int (length a) \<Longrightarrow>
     \<exists>xs. take_at a is = Inr xs \<and> length xs = length is"
  using py_indices_ok[of "is" "length a"] by (auto simp: take_at_def)

subsection \<open>The constructor\<close>

lemma node_of_div: "node_of d = (d + 1) div 2 - 1"
  unfolding node_of_def by (simp add: ceiling_def) linarith

lemma every_other_subset: "set (every_other xs) \<subseteq> set xs"
  by (induction xs rule: every_other.induct) auto

lemma length_every_other: "length (every_other xs) = (length xs + 1) div 2"
  by (induction xs rule: every_other.induct) auto

lemma elem_coords_error: "elem_coords nx w rs = Inl e \<Longrightarrow> e = IndexError \<or> e = ValueError"
  by (induction rs) (auto simp: bindE_Inl_iff split: if_splits dest: take_at_error)

lemma elem_coords_ok:
  assumes "\<forall>r \<in> set rs. (length r + 1) div 2 = w \<and> length r \<le> 8 \<and>
             (\<forall>d \<in> set r. - int (length nx) \<le> node_of d \<and> node_of d < int (length nx))"
  shows "\<exists>m. elem_coords nx w rs = Inr m"
  using assms
proof (induction rs)
  case Nil
  then show ?case by simp
next
  case (Cons r rs)
  have "\<forall>i \<in> set (every_other (take 8 (map node_of r))).
          - int (length nx) \<le> i \<and> i < int (length nx)"
    using Cons.prems every_other_subset[of "take 8 (map node_of r)"]
    by (auto dest!: in_set_takeD)
  from take_at_ok[OF this] obtain xs
    where xs: "take_at nx (every_other (take 8 (map node_of r))) = Inr xs"
      "length xs = length (every_other (take 8 (map node_of r)))"
    by blast
  have "length xs = w"
    using xs(2) Cons.prems by (simp add: length_every_other min_def)
  moreover obtain m where "elem_coords nx w rs = Inr m"
    using Cons by auto
  ultimately show ?case
    using xs by simp
qed

text \<open>
  Claim C7. The constructor \<open>FE.__init__\<close> checks the width of the connectivity array.
  Given material parameters holding \<open>E\<close> and \<open>nu\<close> and a non-empty connectivity whose
  largest DOF number is not negative (so that the statements before the check do not
  raise), a width that is neither 6 nor 8 raises the unsupported-shape exception. With
  width 6 or 8 the constructor never raises that exception, and it returns the object
  whenever every row has that width and every node index derived from a DOF number is
  an index into the coordinate table.
\<close>

theorem init_element_shape:
  assumes "mp0 ''E'' = Some e" and "mp0 ''nu'' = Some nu"
    and "np_max (concat edof0) = Inr n" and "0 \<le> n"
  shows "(ncols edof0 \<noteq> 6 \<and> ncols edof0 \<noteq> 8 \<longrightarrow>
            init edof0 coords mp0 fixdofs = Inl UnsupportedElementShape)
       \<and> (ncols edof0 = 6 \<or> ncols edof0 = 8 \<longrightarrow>
            init edof0 coords mp0 fixdofs \<noteq> Inl UnsupportedElementShape
          \<and> ((\<forall>r \<in> set edof0. length r = ncols edof0 \<and>
                 (\<forall>d \<in> set r. - int (length coords) \<le> node_of d
                                 \<and> node_of d < int (length coords)))
              \<longrightarrow> (\<exists>m. init edof0 coords mp0 fixdofs = Inr m \<and> edof m = edof0 \<and> ndof m = n)))"
proof (intro conjI impI)
  assume "ncols edof0 \<noteq> 6 \<and> ncols edof0 \<noteq> 8"
  then show "init edof0 coords mp0 fixdofs = Inl UnsupportedElementShape"
    using assms by (simp add: init_def lookup_def)
next
  assume s: "ncols edof0 = 6 \<or> ncols edof0 = 8"
  show "init edof0 coords mp0 fixdofs \<noteq> Inl UnsupportedElementShape"
    using assms s
    by (auto simp: init_def lookup_def Let_def bindE_Inl_iff dest: elem_coords_error)
next
  assume s: "ncols edof0 = 6 \<or> ncols edof0 = 8"
    and wf: "\<forall>r \<in> set edof0. length r = ncols edof0 \<and>
               (\<forall>d \<in> set r. - int (length coords) \<le> node_of d
                               \<and> node_of d < int (length coords))"
  define w :: nat where "w = (if ncols edof0 = 6 then 3 else 4)"
  have a: "\<forall>r \<in> set edof0. (length r + 1) div 2 = w \<and> length r \<le> 8 \<and>
             (\<forall>d \<in> set r. - int (length (map fst coords)) \<le> node_of d
                             \<and> node_of d < int (length (map fst coords)))"
    using s wf by (auto simp: w_def)
  have b: "\<forall>r \<in> set edof0. (length r + 1) div 2 = w \<and> length r \<le> 8 \<and>
             (\<forall>d \<in> set r. - int (length (map snd coords)) \<le> node_of d
                             \<and> node_of d < int (length (map snd coords)))"
    using s wf by (auto simp: w_def)
  obtain ex where ex: "elem_coords (map fst coords) w edof0 = Inr ex"
    using elem_coords_ok[OF a] by blast
  obtain ey where ey: "elem_coords (map snd coords) w edof0 = Inr ey"
    using elem_coords_ok[OF b] by blast
  show "\<exists>m. init edof0 coords mp0 fixdofs = Inr m \<and> edof m = edof0 \<and> ndof m = n"
    using assms s ex ey by (auto simp: init_def lookup_def Let_def w_def)
qed

theorem init_element_shape_witness:
  "init [[1, 2, 3, 4, 5, 6, 7]] [(0, 0), (1, 0), (0, 1), (1, 1)] mp_c []
     = Inl UnsupportedElementShape
   \<and> init [[1, 2, 3, 4, 5, 6]] [(0, 0), (1, 0), (0, 1)] mp_c [1, 2]
     \<noteq> Inl UnsupportedElementShape
   \<and> (\<exists>m. init [[1, 2, 3, 4, 5, 6]] [(0, 0), (1, 0), (0, 1)] mp_c [1, 2] = Inr m)"
proof -
  have m: "mp_c ''E'' = Some 1" "mp_c ''nu'' = Some (3 / 10)"
    by (simp_all add: mp_c_def)
  have n7: "np_max (concat [[1, 2, 3, 4, 5, 6, 7]]) = Inr 7"
    by (simp add: np_max_def)
  have n6: "np_max (concat [[1, 2, 3, 4, 5, 6]]) = Inr 6"
    by (simp add: np_max_def)
  have nodes: "node_of 1 = 0" "node_of 2 = 0" "node_of 3 = 1" "node_of 4 = 1"
    "node_of 5 = 2" "node_of 6 = 2"
    by (simp_all add: node_of_div)
  show ?thesis
    using init_element_shape[OF m n7, of "[(0, 0), (1, 0), (0, 1), (1, 1)]" "[]"]
      init_element_shape[OF m n6, of "[(0, 0), (1, 0), (0, 1)]" "[1, 2]"]
    by (auto simp: ncols_def nodes)
qed

lemma nth_err_Inr_iff: "nth_err a i = Inr y \<longleftrightarrow> i < length a \<and> y = a ! i"
  by (auto simp: nth_err_def)

lemma reshape_to_Inr_iff: "reshape_to n v = Inr w \<longleftrightarrow> length v = n \<and> w = v"
  by (auto simp: reshape_to_def)

subsection \<open>Loops that may raise\<close>

lemma foldE_append: "foldE f (xs @ ys) s = bindE (foldE f xs s) (foldE f ys)"
  by (induction xs arbitrary: s) (auto simp: bindE_def split: sum.splits)

lemma foldE_upt_induct:
  assumes "foldE f [0..<n] s0 = Inr s"
    and "P 0 s0"
    and "\<And>k t t'. k < n \<Longrightarrow> foldE f [0..<k] s0 = Inr t \<Longrightarrow> P k t \<Longrightarrow> f t k = Inr t'
           \<Longrightarrow> P (Suc k) t'"
  shows "P n s"
  using assms
proof (induction n arbitrary: s)
  case 0
  then show ?case by simp
next
  case (Suc n)
  from Suc.prems(1) obtain t where t: "foldE f [0..<n] s0 = Inr t" "f t n = Inr s"
    by (auto simp: foldE_append bindE_Inr_iff)
  have "P n t"
    by (rule Suc.IH[OF t(1) Suc.prems(2)]) (use Suc.prems(3) in auto)
  then show ?case
    using Suc.prems(3)[of n t s] t by simp
qed

subsection \<open>Evaluation on the concrete inputs\<close>

lemma upt6: "[0..<6] = [0, 1, 2, 3, 4, 5]"
  by (simp add: upt_rec)

lemma rep6: "replicate 6 x = [x, x, x, x, x, x]"
  by (simp add: numeral_eq_Suc)

lemmas eval_defs = nl_assemble_def nl0_def asm0_def st_c_def fe_c_def nl_elem_def nth_err_def take_at_def
  py_index_def edofIndex_def reshape_to_def ncols_def elem_c_def iadd_at_def broadcast_def
  put_at_def von_mises_def hydrostatic_def eye_def upt6 rep6

lemma init_fe_c:
  "init [[1, 2, 3, 4, 5, 6]] [(0, 0), (1, 0), (0, 1)] mp_c [0, 1, 2, 3, 4] = Inr fe_c"
  by (simp add: init_def fe_c_def lookup_def mp_c_def np_max_def ncols_def take_at_def
      py_index_def node_of_div setdiff1d_def upt_rec rep6)

lemma nl_assemble_c:
  "nl_assemble [2] 3 [0, 0, 0, 0, 0, 1] [1, 1, 1, 0] (elem_c 1 7 5) () () st_c = Inr a_c"
  by (simp add: eval_defs a_c_def)

subsection \<open>The element loop of a Newton iteration\<close>

lemma nl_elem_Inr:
  assumes "nl_elem self x p ep elementFun materialFun eq st elem = Inr st'"
  obtains ue Ke fint fext sg epsilon fg fi ft vm where
    "elem < length (edof self)" "elem < length (elemX self)" "elem < length (elemY self)"
    "elem < length x"
    "take_at (fe_U self) (edofIndex (edof self ! elem)) = Inr ue"
    "length ue = ncols (edof self)"
    "elementFun ue (elemX self ! elem) (elemY self ! elem) ep (fe_mp self) materialFun eq
       = (Ke, fint, fext, sg, epsilon)"
    "iadd_at (a_fextGlobal st) (edofIndex (edof self ! elem)) (map (\<lambda>f. f * x ! elem) fext) = Inr fg"
    "iadd_at (a_fintGlobal st) (edofIndex (edof self ! elem))
              (map (\<lambda>f. f * power_int (x ! elem) p) fint) = Inr fi"
    "iadd_at (a_fext_tilde st) (edofIndex (edof self ! elem)) fext = Inr ft"
    "length fint = ncols (edof self)" "length fext = ncols (edof self)"
    "von_mises sg = Inr vm"
    "st' = \<lparr>a_row = a_row st @ concat (replicate (length (edof self ! elem)) (edofIndex (edof self ! elem))),
            a_col = a_col st @ concat (map (replicate (length (edof self ! elem))) (edofIndex (edof self ! elem))),
            a_data = a_data st @ map (\<lambda>k. k * power_int (x ! elem) p) (concat Ke),
            a_fextGlobal = fg, a_fext_tilde = ft, a_fintGlobal = fi,
            a_dR = (a_dR st)[elem := map (\<lambda>(a, b). a - b)
                      (zip (map (\<lambda>f. of_int p * power_int (x ! elem) (p - 1) * f) fint) fext)],
            a_sig_VM = (a_sig_VM st)[elem := vm],
            a_eps_h = (a_eps_h st)[elem := hydrostatic epsilon]\<rparr>"
proof -
  from assms obtain ue where a:
    "elem < length (edof self)" "elem < length (elemX self)" "elem < length (elemY self)"
    "take_at (fe_U self) (edofIndex (edof self ! elem)) = Inr ue"
    "length ue = ncols (edof self)"
    and rest: "(case elementFun ue (elemX self ! elem) (elemY self ! elem) ep (fe_mp self) materialFun eq
       of (Ke, fint, fext, sg, epsilon) \<Rightarrow>
     bindE (nth_err x elem) (\<lambda>xe.
     bindE (iadd_at (a_fextGlobal st) (edofIndex (edof self ! elem)) (map (\<lambda>f. f * xe) fext)) (\<lambda>fg.
     bindE (iadd_at (a_fintGlobal st) (edofIndex (edof self ! elem))
              (map (\<lambda>f. f * power_int xe p) fint)) (\<lambda>fi.
     bindE (iadd_at (a_fext_tilde st) (edofIndex (edof self ! elem)) fext) (\<lambda>ft.
     bindE (reshape_to (ncols (edof self))
              (map (\<lambda>f. of_int p * power_int xe (p - 1) * f) fint)) (\<lambda>d1.
     bindE (reshape_to (ncols (edof self)) fext) (\<lambda>d2.
     bindE (von_mises sg) (\<lambda>vm.
       Inr \<lparr>a_row = a_row st @ concat (replicate (length (edof self ! elem)) (edofIndex (edof self ! elem))),
            a_col = a_col st @ concat (map (replicate (length (edof self ! elem))) (edofIndex (edof self ! elem))),
            a_data = a_data st @ map (\<lambda>k. k * power_int xe p) (concat Ke),
            a_fextGlobal = fg, a_fext_tilde = ft, a_fintGlobal = fi,
            a_dR = (a_dR st)[elem := map (\<lambda>(p, q). p - q) (zip d1 d2)],
            a_sig_VM = (a_sig_VM st)[elem := vm],
            a_eps_h = (a_eps_h st)[elem := hydrostatic epsilon]\<rparr>)))))))) = Inr st'"
    unfolding nl_elem_def
    by (auto simp: bindE_Inr_iff nth_err_Inr_iff reshape_to_Inr_iff)
  obtain Ke fint fext sg epsilon where ef:
    "elementFun ue (elemX self ! elem) (elemY self ! elem) ep (fe_mp self) materialFun eq
       = (Ke, fint, fext, sg, epsilon)"
    by (rule prod_cases5)
  show ?thesis
    using rest a unfolding ef prod.case
    by (auto simp: bindE_Inr_iff nth_err_Inr_iff reshape_to_Inr_iff intro!: that[OF _ _ _ _ _ _ ef])
qed


lemma von_mises_Inr_iff:
  "von_mises s = Inr vm \<longleftrightarrow> 6 \<le> length s \<and>
     vm = sqrt (((s ! 0 - s ! 1)\<^sup>2 + (s ! 1 - s ! 2)\<^sup>2 + (s ! 2 - s ! 0)\<^sup>2) / 2
                      + 3 * ((s ! 3)\<^sup>2 + (s ! 4)\<^sup>2 + (s ! 5)\<^sup>2))"
  by (auto simp: von_mises_def)

lemma hydrostatic_two: "2 \<le> length eps \<Longrightarrow> hydrostatic eps = (eps ! 0 + eps ! 1) / 3"
  by (cases eps; cases "tl eps") (auto simp: hydrostatic_def)

text \<open>
  Claim C9. In the element loop of a Newton iteration (the stress and strain arrays have
  one entry per density, as \<open>fe_nl\<close> creates them), the von Mises entry of every element is
  \<open>sqrt(((s0-s1)^2 + (s1-s2)^2 + (s2-s0)^2)/2 + 3*(s3^2 + s4^2 + s5^2))\<close> of the stress
  \<open>s\<close> that the element routine returned for it, and the hydrostatic strain entry is the
  sum of the first two strain components divided by 3. The stress \<open>[1, 2, 3, 0, 0, 0]\<close>
  gives \<open>sqrt 3\<close>.
\<close>

theorem nl_assemble_stress_strain:
  assumes run: "nl_assemble x p F ep elementFun materialFun eq st = Inr a"
    and len: "length (n_sig_VM st) = length x" "length (n_eps_h st) = length x"
    and el: "elem < nElem (n_self st)"
    and ue: "take_at (fe_U (n_self st)) (edofIndex (edof (n_self st) ! elem)) = Inr ue"
    and out: "elementFun ue (elemX (n_self st) ! elem) (elemY (n_self st) ! elem) ep
                (fe_mp (n_self st)) materialFun eq = (Ke, fint, fext, s, epsilon)"
  shows "6 \<le> length s
     \<and> a_sig_VM a ! elem =
         sqrt (((s ! 0 - s ! 1)\<^sup>2 + (s ! 1 - s ! 2)\<^sup>2 + (s ! 2 - s ! 0)\<^sup>2) / 2
               + 3 * ((s ! 3)\<^sup>2 + (s ! 4)\<^sup>2 + (s ! 5)\<^sup>2))
     \<and> a_eps_h a ! elem = sum_list (take 2 epsilon) / 3
     \<and> (2 \<le> length epsilon \<longrightarrow> a_eps_h a ! elem = (epsilon ! 0 + epsilon ! 1) / 3)
     \<and> von_mises [1, 2, 3, 0, 0, 0] = Inr (sqrt 3)"
proof -
  define V where "V = sqrt (((s ! 0 - s ! 1)\<^sup>2 + (s ! 1 - s ! 2)\<^sup>2 + (s ! 2 - s ! 0)\<^sup>2) / 2
               + 3 * ((s ! 3)\<^sup>2 + (s ! 4)\<^sup>2 + (s ! 5)\<^sup>2))"
  define P where "P = (\<lambda>k (t :: nl). length (a_sig_VM t) = length x \<and> length (a_eps_h t) = length x
     \<and> (elem < k \<longrightarrow> 6 \<le> length s \<and> a_sig_VM t ! elem = V \<and> a_eps_h t ! elem = hydrostatic epsilon))"
  have "P (nElem (n_self st)) a"
  proof (rule foldE_upt_induct[OF run[unfolded nl_assemble_def]])
    show "P 0 (nl0 F st)"
      using len by (simp add: P_def nl0_def)
  next
    fix k t t'
    assume k: "k < nElem (n_self st)" and Pk: "P k t"
      and step: "nl_elem (n_self st) x p ep elementFun materialFun eq t k = Inr t'"
    from step show "P (Suc k) t'"
    proof (rule nl_elem_Inr)
      fix ue' Ke' fint' fext' sg' epsilon' fg fi ft vm
      assume kx: "k < length x"
        and ue': "take_at (fe_U (n_self st)) (edofIndex (edof (n_self st) ! k)) = Inr ue'"
        and out': "elementFun ue' (elemX (n_self st) ! k) (elemY (n_self st) ! k) ep
                     (fe_mp (n_self st)) materialFun eq = (Ke', fint', fext', sg', epsilon')"
        and vm: "von_mises sg' = Inr vm"
        and t': "t' = \<lparr>a_row = a_row t @ concat (replicate (length (edof (n_self st) ! k)) (edofIndex (edof (n_self st) ! k))),
            a_col = a_col t @ concat (map (replicate (length (edof (n_self st) ! k))) (edofIndex (edof (n_self st) ! k))),
            a_data = a_data t @ map (\<lambda>k'. k' * power_int (x ! k) p) (concat Ke'),
            a_fextGlobal = fg, a_fext_tilde = ft, a_fintGlobal = fi,
            a_dR = (a_dR t)[k := map (\<lambda>(a, b). a - b)
                      (zip (map (\<lambda>f. of_int p * power_int (x ! k) (p - 1) * f) fint') fext')],
            a_sig_VM = (a_sig_VM t)[k := vm],
            a_eps_h = (a_eps_h t)[k := hydrostatic epsilon']\<rparr>"
      show "P (Suc k) t'"
      proof (cases "elem = k")
        case True
        with ue ue' out out' have "sg' = s" "epsilon' = epsilon" by simp_all
        with vm True kx Pk show ?thesis
          by (simp add: P_def t' von_mises_Inr_iff V_def)
      next
        case False
        with Pk show ?thesis by (auto simp: P_def t')
      qed
    qed
  qed
  moreover have "von_mises [1, 2, 3, 0, 0, 0] = Inr (sqrt 3)"
    by (simp add: von_mises_def power2_eq_square)
  ultimately show ?thesis
    using el by (simp add: P_def V_def hydrostatic_two) (simp add: hydrostatic_def)
qed

theorem nl_assemble_stress_strain_witness:
  "nl_assemble [2] 3 [0, 0, 0, 0, 0, 1] [1, 1, 1, 0] (elem_c 1 7 5) () () st_c = Inr a_c
   \<and> a_sig_VM a_c ! 0 = sqrt (((1 - 2)\<^sup>2 + (2 - 3)\<^sup>2 + (3 - 1)\<^sup>2) / 2 + 3 * (0\<^sup>2 + 0\<^sup>2 + 0\<^sup>2))
   \<and> a_eps_h a_c ! 0 = (3 + 6) / 3"
proof -
  have ue: "take_at (fe_U (n_self st_c)) (edofIndex (edof (n_self st_c) ! 0)) = Inr [0, 0, 0, 0, 0, 0]"
    by (simp add: st_c_def fe_c_def take_at_def edofIndex_def py_index_def)
  have out: "elem_c 1 7 5 [0, 0, 0, 0, 0, 0] (elemX (n_self st_c) ! 0) (elemY (n_self st_c) ! 0) [1, 1, 1, 0]
      (fe_mp (n_self st_c)) () () = (eye 6, [0, 0, 0, 0, 0, 7], [0, 0, 0, 0, 0, 5], [1, 2, 3, 0, 0, 0], [3, 6, 0, 0, 0, 0])"
    by (simp add: elem_c_def)
  have len: "length (n_sig_VM st_c) = length [2::real]" "length (n_eps_h st_c) = length [2::real]"
    and el: "0 < nElem (n_self st_c)"
    by (simp_all add: st_c_def fe_c_def)
  show ?thesis
    using nl_assemble_stress_strain[where elementFun = "elem_c 1 7 5" and st = st_c
        and x = "[2]" and ue = "[0, 0, 0, 0, 0, 0]" and elem = 0 and s = "[1, 2, 3, 0, 0, 0]"
        and epsilon = "[3, 6, 0, 0, 0, 0]", OF nl_assemble_c len el ue out] nl_assemble_c
    by simp
qed

subsection \<open>Writing through index arrays\<close>

lemma put_at_Nil [simp]: "put_at a [] w = a" "put_at a js [] = a"
  by (simp_all add: put_at_def)

lemma put_at_Cons [simp]: "put_at a (j # js) (y # w) = put_at (a[j := y]) js w"
  by (simp add: put_at_def)

lemma length_put_at [simp]: "length (put_at a js w) = length a"
proof (induction js arbitrary: a w)
  case Nil then show ?case by simp
next
  case (Cons j js) then show ?case by (cases w) simp_all
qed

lemma put_at_notin: "i \<notin> set js \<Longrightarrow> put_at a js w ! i = a ! i"
proof (induction js arbitrary: a w)
  case Nil then show ?case by simp
next
  case (Cons j js) then show ?case by (cases w) simp_all
qed

lemma put_at_nth:
  "distinct js \<Longrightarrow> length w = length js \<Longrightarrow> k < length js \<Longrightarrow> js ! k < length a
     \<Longrightarrow> put_at a js w ! (js ! k) = w ! k"
proof (induction js arbitrary: a w k)
  case Nil then show ?case by simp
next
  case (Cons j js)
  then obtain y w' where w: "w = y # w'" by (cases w) auto
  show ?case
  proof (cases k)
    case 0
    with Cons.prems w show ?thesis by (simp add: put_at_notin)
  next
    case (Suc k')
    with Cons.prems w Cons.IH[of w' k' "a[j := y]"] show ?thesis by simp
  qed
qed

lemma py_indices_nonneg:
  "py_indices n idx = Inr js \<Longrightarrow> \<forall>i \<in> set idx. 0 \<le> i
     \<Longrightarrow> js = map nat idx \<and> (\<forall>i \<in> set idx. i < int n)"
  by (induction idx arbitrary: js) (auto simp: bindE_Inr_iff py_index_def split: if_splits)


lemma py_indices_bound: "py_indices n idx = Inr js \<Longrightarrow> \<forall>j \<in> set js. j < n"
  by (induction idx arbitrary: js) (auto simp: bindE_Inr_iff py_index_def split: if_splits)

lemma iadd_at_length: "iadd_at a idx w = Inr a' \<Longrightarrow> length a' = length a"
  by (auto simp: iadd_at_def bindE_Inr_iff)

lemma distinct_map_nat: "distinct idx \<Longrightarrow> \<forall>i \<in> set idx. (0::int) \<le> i \<Longrightarrow> distinct (map nat idx)"
  by (auto simp: distinct_map inj_on_def) (metis nat_eq_iff2)

lemma iadd_at_nth:
  assumes "iadd_at a idx w = Inr a'" and "\<forall>i \<in> set idx. 0 \<le> i" and "distinct idx"
    and "length w = length idx"
  shows "\<forall>k < length idx. nat (idx ! k) < length a
            \<and> a' ! nat (idx ! k) = a ! nat (idx ! k) + w ! k"
    and "\<forall>i. int i \<notin> set idx \<longrightarrow> a' ! i = a ! i"
proof -
  from assms(1) obtain js w' where js: "py_indices (length a) idx = Inr js"
    and w': "broadcast (length js) w = Inr w'"
    and a': "a' = put_at a js (map (\<lambda>(j, y). a ! j + y) (zip js w'))"
    by (auto simp: iadd_at_def bindE_Inr_iff)
  have jsn: "js = map nat idx" and bound: "\<forall>i \<in> set idx. i < int (length a)"
    using py_indices_nonneg[OF js assms(2)] by auto
  have ww: "w' = w" using w' assms(4) jsn by (simp add: broadcast_def)
  have d: "distinct js" using jsn distinct_map_nat[OF assms(3) assms(2)] by simp
  show "\<forall>k < length idx. nat (idx ! k) < length a
            \<and> a' ! nat (idx ! k) = a ! nat (idx ! k) + w ! k"
  proof (intro allI impI)
    fix k assume k: "k < length idx"
    then have lt: "nat (idx ! k) < length a" using bound assms(2) by (auto simp: nat_less_iff)
    have "put_at a js (map (\<lambda>(j, y). a ! j + y) (zip js w)) ! (js ! k)
            = map (\<lambda>(j, y). a ! j + y) (zip js w) ! k"
      by (rule put_at_nth) (use d k jsn assms(4) lt in auto)
    then show "nat (idx ! k) < length a \<and> a' ! nat (idx ! k) = a ! nat (idx ! k) + w ! k"
      using lt k jsn assms(4) a' ww by simp
  qed
  show "\<forall>i. int i \<notin> set idx \<longrightarrow> a' ! i = a ! i"
  proof (intro allI impI)
    fix i assume "int i \<notin> set idx"
    then have "i \<notin> set js" using jsn assms(2) by (auto simp: image_iff)
    then show "a' ! i = a ! i" by (simp add: a' put_at_notin)
  qed
qed

subsection \<open>Sums of triplets\<close>

lemma tri_sum_append: "tri_sum (ts @ us) i j = tri_sum ts i j + tri_sum us i j"
  by (simp add: tri_sum_def)

lemma tri_sum_concat: "tri_sum (concat bs) i j = sum_list (map (\<lambda>b. tri_sum b i j) bs)"
  by (induction bs) (simp_all add: tri_sum_append, simp add: tri_sum_def)

lemma zip_blocks:
  assumes "length cs = length Ks" and "\<forall>kr \<in> set Ks. length kr = length idx"
  shows "zip (concat (replicate (length cs) idx))
             (zip (concat (map (replicate (length idx)) cs)) (map f (concat Ks)))
         = concat (map (\<lambda>(c, kr). zip idx (zip (replicate (length idx) c) (map f kr)))
                       (zip cs Ks))"
  using assms by (induction cs Ks rule: list_induct2) simp_all

lemma tri_sum_block:
  assumes "length kr = length idx"
  shows "tri_sum (zip idx (zip (replicate (length idx) c) (map f kr))) i j
         = (\<Sum>b < length idx. if idx ! b = i \<and> c = j then f (kr ! b) else 0)"
proof -
  let ?ts = "zip idx (zip (replicate (length idx) c) (map f kr))"
  have len: "length ?ts = length idx" using assms by simp
  have "tri_sum ?ts i j
        = sum_list (map (\<lambda>(r, c, v). if r = i \<and> c = j then v else 0) ?ts)"
    unfolding tri_sum_def
    by (simp add: sum_list_map_filter' case_prod_unfold)
  also have "\<dots> = (\<Sum>b = 0..<length ?ts. (map (\<lambda>(r, c, v). if r = i \<and> c = j then v else 0) ?ts) ! b)"
    by (simp add: sum_list_sum_nth)
  also have "\<dots> = (\<Sum>b < length idx. if idx ! b = i \<and> c = j then f (kr ! b) else 0)"
    unfolding len using assms by (intro sum.cong) (auto simp: lessThan_atLeast0)
  finally show ?thesis .
qed

lemma tri_sum_element:
  assumes "length Ke = length idx" and "\<forall>kr \<in> set Ke. length kr = length idx"
  shows "tri_sum (zip (concat (replicate (length idx) idx))
                      (zip (concat (map (replicate (length idx)) idx)) (map f (concat Ke)))) i j
         = (\<Sum>a < length idx. \<Sum>b < length idx.
              if idx ! b = i \<and> idx ! a = j then f (Ke ! a ! b) else 0)"
proof -
  have "zip (concat (replicate (length idx) idx))
             (zip (concat (map (replicate (length idx)) idx)) (map f (concat Ke)))
         = concat (map (\<lambda>(c, kr). zip idx (zip (replicate (length idx) c) (map f kr)))
                       (zip idx Ke))"
    using zip_blocks[of idx Ke idx f] assms by simp
  then have "tri_sum (zip (concat (replicate (length idx) idx))
                      (zip (concat (map (replicate (length idx)) idx)) (map f (concat Ke)))) i j
      = sum_list (map (\<lambda>(c, kr). tri_sum (zip idx (zip (replicate (length idx) c) (map f kr))) i j) (zip idx Ke))"
    by (simp add: tri_sum_concat comp_def case_prod_unfold)
  also have "\<dots> = (\<Sum>a = 0..<length (zip idx Ke). (map (\<lambda>(c, kr). tri_sum (zip idx (zip (replicate (length idx) c) (map f kr))) i j) (zip idx Ke)) ! a)"
    by (simp add: sum_list_sum_nth)
  also have "\<dots> = (\<Sum>a < length idx. \<Sum>b < length idx.
              if idx ! b = i \<and> idx ! a = j then f (Ke ! a ! b) else 0)"
    using assms by (intro sum.cong) (auto simp: lessThan_atLeast0 tri_sum_block)
  finally show ?thesis .
qed

subsection \<open>The element loop of \<open>fe\<close>\<close>

lemma foldE_split:
  assumes "foldE f [0..<n] s0 = Inr a" and "e < n"
  obtains st st' where "foldE f [0..<e] s0 = Inr st" "f st e = Inr st'"
    "foldE f [Suc e..<n] st' = Inr a"
proof -
  have "[0..<n] = [0..<e] @ e # [Suc e..<n]"
    using assms(2) by (metis less_imp_add_positive upt_add_eq_append upt_conv_Cons zero_le add_0 less_imp_le_nat le_Suc_ex)
  with assms(1) show ?thesis
    by (auto simp: foldE_append bindE_Inr_iff intro: that)
qed

lemma fe_elem_Inr:
  assumes "fe_elem self x p epLin elementFun materialFun eq st elem = Inr st'"
  obtains Ke fint fext stress epsilon fg ft where
    "elem < length (edof self)" "elem < length (elemX self)" "elem < length (elemY self)"
    "elem < length x"
    "elementFun (replicate (ncols (edof self)) 0) (elemX self ! elem) (elemY self ! elem) epLin
       (fe_mp self) materialFun eq = (Ke, fint, fext, stress, epsilon)"
    "iadd_at (a_fextGlobal st) (edofIndex (edof self ! elem)) (map (\<lambda>f. f * x ! elem) fext)
       = Inr fg"
    "iadd_at (a_fext_tilde st) (edofIndex (edof self ! elem)) fext = Inr ft"
    "st' = \<lparr>a_row = a_row st @ concat (replicate (length (edof self ! elem))
                                   (edofIndex (edof self ! elem))),
            a_col = a_col st @ concat (map (replicate (length (edof self ! elem)))
                                   (edofIndex (edof self ! elem))),
            a_data = a_data st @ map (\<lambda>k. k * power_int (x ! elem) p) (concat Ke),
            a_fextGlobal = fg, a_fext_tilde = ft\<rparr>"
proof -
  obtain Ke fint fext stress epsilon where ef:
    "elementFun (replicate (ncols (edof self)) 0) (elemX self ! elem) (elemY self ! elem) epLin
       (fe_mp self) materialFun eq = (Ke, fint, fext, stress, epsilon)"
    by (rule prod_cases5)
  from assms have a: "elem < length (edof self)" "elem < length (elemX self)"
    "elem < length (elemY self)"
    unfolding fe_elem_def by (auto simp: bindE_Inr_iff nth_err_Inr_iff)
  show ?thesis
    using assms a unfolding fe_elem_def
    by (auto simp: bindE_Inr_iff nth_err_Inr_iff ef intro!: that[OF _ _ _ _ ef])
qed

lemma coo_matrix_Inr_iff:
  "coo_matrix d r c n = Inr K \<longleftrightarrow>
     length r = length d \<and> length c = length d \<and> 0 \<le> n
     \<and> (\<forall>i \<in> set r. 0 \<le> i \<and> i < n) \<and> (\<forall>j \<in> set c. 0 \<le> j \<and> j < n)
     \<and> K = \<lparr>coo_data = d, coo_row = r, coo_col = c, coo_shape = n\<rparr>"
  by (auto simp: coo_matrix_def list_all_iff)

text \<open>
  Claim C1, amended. For every call to \<open>FE.fe\<close> whose element loop completes and every
  element \<open>e\<close> (a row of distinct DOF numbers from 1 upwards, an element routine returning
  a square stiffness matrix and an external force of the width of the row), the pass
  for \<open>e\<close> appends the element stiffness times \<open>density[e]^penalty\<close> to the stiffness
  triplets, so that every entry of the assembled matrix grows by the sum of the
  contributions at its position (duplicates are summed); it adds the element external
  force times \<open>density[e]\<close>, the density to the power one and not to the power of the
  penalty, into the copy of the load vector; and it adds the element external force
  unscaled into the body-only force vector. All other entries of the two vectors are
  left as they were.
\<close>

theorem fe_assemble_element:
  assumes run: "fe_assemble self x p F ep elementFun materialFun eq = Inr a"
    and el: "elem < nElem self"
    and wf: "distinct (edof self ! elem)" "\<forall>d \<in> set (edof self ! elem). 1 \<le> d"
    and out: "elementFun (replicate (ncols (edof self)) 0) (elemX self ! elem)
                (elemY self ! elem) (ep[3 := 1]) (fe_mp self) materialFun eq
              = (Ke, fint, fext, stress, epsilon)"
    and shape: "length fext = length (edof self ! elem)" "length Ke = length (edof self ! elem)"
      "\<forall>kr \<in> set Ke. length kr = length (edof self ! elem)"
  shows "\<exists>st st'.
      foldE (fe_elem self x p (ep[3 := 1]) elementFun materialFun eq) [0..<elem] (asm0 F) = Inr st
    \<and> fe_elem self x p (ep[3 := 1]) elementFun materialFun eq st elem = Inr st'
    \<and> foldE (fe_elem self x p (ep[3 := 1]) elementFun materialFun eq) [Suc elem..<nElem self] st'
        = Inr a
    \<and> a_row st' = a_row st @ concat (replicate (length (edof self ! elem))
                                        (edofIndex (edof self ! elem)))
    \<and> a_col st' = a_col st @ concat (map (replicate (length (edof self ! elem)))
                                        (edofIndex (edof self ! elem)))
    \<and> a_data st' = a_data st @ map (\<lambda>k. k * power_int (x ! elem) p) (concat Ke)
    \<and> (\<forall>n K K' i j.
          coo_matrix (a_data st) (a_row st) (a_col st) n = Inr K
          \<and> coo_matrix (a_data st') (a_row st') (a_col st') n = Inr K'
          \<longrightarrow> entry K' i j = entry K i j
                + (\<Sum>a < length (edof self ! elem). \<Sum>b < length (edof self ! elem).
                     if edof self ! elem ! b - 1 = i \<and> edof self ! elem ! a - 1 = j
                     then Ke ! a ! b * power_int (x ! elem) p else 0))
    \<and> (\<forall>k < length (edof self ! elem).
          a_fextGlobal st' ! nat (edof self ! elem ! k - 1)
            = a_fextGlobal st ! nat (edof self ! elem ! k - 1) + fext ! k * x ! elem
        \<and> a_fext_tilde st' ! nat (edof self ! elem ! k - 1)
            = a_fext_tilde st ! nat (edof self ! elem ! k - 1) + fext ! k)
    \<and> (\<forall>i. int i + 1 \<notin> set (edof self ! elem)
          \<longrightarrow> a_fextGlobal st' ! i = a_fextGlobal st ! i
            \<and> a_fext_tilde st' ! i = a_fext_tilde st ! i)"
proof -
  let ?r = "edof self ! elem"
  let ?idx = "edofIndex ?r"
  let ?f = "fe_elem self x p (ep[3 := 1]) elementFun materialFun eq"
  from run have lin: "set_linear ep = Inr (ep[3 := 1])"
    and fold: "foldE ?f [0..<nElem self] (asm0 F) = Inr a"
    by (auto simp: fe_assemble_def bindE_Inr_iff set_linear_def split: if_splits)
  from foldE_split[OF fold el] obtain st st' where
    st: "foldE ?f [0..<elem] (asm0 F) = Inr st" and step: "?f st elem = Inr st'"
    and rest: "foldE ?f [Suc elem..<nElem self] st' = Inr a"
    by blast
  from step obtain fg ft where
    fg: "iadd_at (a_fextGlobal st) ?idx (map (\<lambda>f. f * x ! elem) fext) = Inr fg"
    and ft: "iadd_at (a_fext_tilde st) ?idx fext = Inr ft"
    and st': "st' = \<lparr>a_row = a_row st @ concat (replicate (length ?r) ?idx),
            a_col = a_col st @ concat (map (replicate (length ?r)) ?idx),
            a_data = a_data st @ map (\<lambda>k. k * power_int (x ! elem) p) (concat Ke),
            a_fextGlobal = fg, a_fext_tilde = ft\<rparr>"
    by (rule fe_elem_Inr) (use out in auto)
  have idx_len: "length ?idx = length ?r" by (simp add: edofIndex_def)
  have idx_nth: "\<And>k. k < length ?r \<Longrightarrow> ?idx ! k = ?r ! k - 1" by (simp add: edofIndex_def)
  have idx_nonneg: "\<forall>i \<in> set ?idx. 0 \<le> i" using wf(2) by (auto simp: edofIndex_def)
  have idx_dist: "distinct ?idx"
    using wf(1) by (simp add: edofIndex_def distinct_map inj_on_def)
  have idx_set: "\<And>i. int i \<in> set ?idx \<longleftrightarrow> int i + 1 \<in> set ?r"
    by (auto simp: edofIndex_def image_iff) (metis add_diff_cancel_right')
  have K: "\<forall>n K K' i j.
          coo_matrix (a_data st) (a_row st) (a_col st) n = Inr K
          \<and> coo_matrix (a_data st') (a_row st') (a_col st') n = Inr K'
          \<longrightarrow> entry K' i j = entry K i j
                + (\<Sum>a < length ?r. \<Sum>b < length ?r.
                     if ?r ! b - 1 = i \<and> ?r ! a - 1 = j
                     then Ke ! a ! b * power_int (x ! elem) p else 0)"
  proof (intro allI impI)
    fix n K K' i j
    assume "coo_matrix (a_data st) (a_row st) (a_col st) n = Inr K
          \<and> coo_matrix (a_data st') (a_row st') (a_col st') n = Inr K'"
    then have lens: "length (a_row st) = length (a_data st)" "length (a_col st) = length (a_data st)"
      and K: "K = \<lparr>coo_data = a_data st, coo_row = a_row st, coo_col = a_col st, coo_shape = n\<rparr>"
      and K': "K' = \<lparr>coo_data = a_data st', coo_row = a_row st', coo_col = a_col st', coo_shape = n\<rparr>"
      by (auto simp: coo_matrix_Inr_iff)
    have "entry K' i j = entry K i j
        + tri_sum (zip (concat (replicate (length ?idx) ?idx))
                      (zip (concat (map (replicate (length ?idx)) ?idx))
                           (map (\<lambda>k. k * power_int (x ! elem) p) (concat Ke)))) i j"
      using lens by (simp add: entry_def triplets_def K K' st' tri_sum_append idx_len)
    also have "tri_sum (zip (concat (replicate (length ?idx) ?idx))
                      (zip (concat (map (replicate (length ?idx)) ?idx))
                           (map (\<lambda>k. k * power_int (x ! elem) p) (concat Ke)))) i j
        = (\<Sum>a < length ?idx. \<Sum>b < length ?idx.
              if ?idx ! b = i \<and> ?idx ! a = j then Ke ! a ! b * power_int (x ! elem) p else 0)"
      by (rule tri_sum_element) (use shape idx_len in auto)
    also have "\<dots> = (\<Sum>a < length ?r. \<Sum>b < length ?r.
                     if ?r ! b - 1 = i \<and> ?r ! a - 1 = j
                     then Ke ! a ! b * power_int (x ! elem) p else 0)"
      unfolding idx_len by (intro sum.cong refl) (simp add: idx_nth)
    finally show "entry K' i j = entry K i j
                + (\<Sum>a < length ?r. \<Sum>b < length ?r.
                     if ?r ! b - 1 = i \<and> ?r ! a - 1 = j
                     then Ke ! a ! b * power_int (x ! elem) p else 0)" .
  qed
  have G: "\<forall>k < length ?idx. nat (?idx ! k) < length (a_fextGlobal st)
            \<and> fg ! nat (?idx ! k) = a_fextGlobal st ! nat (?idx ! k) + map (\<lambda>f. f * x ! elem) fext ! k"
    and G': "\<forall>i. int i \<notin> set ?idx \<longrightarrow> fg ! i = a_fextGlobal st ! i"
    using iadd_at_nth[OF fg idx_nonneg idx_dist] shape(1) idx_len by simp_all
  have T: "\<forall>k < length ?idx. nat (?idx ! k) < length (a_fext_tilde st)
            \<and> ft ! nat (?idx ! k) = a_fext_tilde st ! nat (?idx ! k) + fext ! k"
    and T': "\<forall>i. int i \<notin> set ?idx \<longrightarrow> ft ! i = a_fext_tilde st ! i"
    using iadd_at_nth[OF ft idx_nonneg idx_dist] shape(1) idx_len by simp_all
  have forces: "\<forall>k < length ?r.
          a_fextGlobal st' ! nat (?r ! k - 1)
            = a_fextGlobal st ! nat (?r ! k - 1) + fext ! k * x ! elem
        \<and> a_fext_tilde st' ! nat (?r ! k - 1)
            = a_fext_tilde st ! nat (?r ! k - 1) + fext ! k"
    using G T shape(1) by (simp add: st' idx_len idx_nth)
  have others: "\<forall>i. int i + 1 \<notin> set ?r
          \<longrightarrow> a_fextGlobal st' ! i = a_fextGlobal st ! i
            \<and> a_fext_tilde st' ! i = a_fext_tilde st ! i"
    using G' T' by (simp add: st' idx_set)
  show ?thesis
    using st step rest K forces others by (intro exI[of _ st] exI[of _ st']) (simp add: st')
qed

lemmas eval_fe = fe_assemble_def set_linear_def asm0_def fe_elem_def fe_c_def nth_err_def
  take_at_def py_index_def edofIndex_def reshape_to_def ncols_def elem_c_def iadd_at_def
  broadcast_def put_at_def eye_def upt6 rep6

lemma fe_assemble_c:
  "fe_assemble fe_c [2] 3 [0, 0, 0, 0, 0, 1] [1, 1, 1, 0] (elem_c 1 0 5) () () = Inr asm_c"
  by (simp add: eval_fe asm_c_def)

text \<open>
  Claim C1 as stated fails: with density 2, penalty 3, load 1 and element external
  force 5 on the last DOF, the full force vector holds \<open>1 + 5 * 2\<close> there, not
  \<open>1 + 5 * 2^3\<close>.
\<close>

theorem fe_assemble_fext_counterexample:
  "fe_assemble fe_c [2] 3 [0, 0, 0, 0, 0, 1] [1, 1, 1, 0] (elem_c 1 0 5) () () = Inr asm_c
   \<and> a_fextGlobal asm_c ! 5 = 1 + 5 * 2
   \<and> a_fextGlobal asm_c ! 5 \<noteq> 1 + 5 * power_int 2 3"
  by (simp add: fe_assemble_c) (simp add: asm_c_def)

theorem fe_assemble_element_witness:
  "fe_assemble fe_c [2] 3 [0, 0, 0, 0, 0, 1] [1, 1, 1, 0] (elem_c 1 0 5) () () = Inr asm_c
   \<and> a_fextGlobal asm_c ! 5 = a_fextGlobal (asm0 [0, 0, 0, 0, 0, 1]) ! 5 + 5 * 2
   \<and> a_fext_tilde asm_c ! 5 = a_fext_tilde (asm0 [0, 0, 0, 0, 0, 1]) ! 5 + 5
   \<and> a_data asm_c = a_data (asm0 [0, 0, 0, 0, 0, 1]) @ map (\<lambda>k. k * power_int 2 3) (concat (eye 6))"
proof -
  have el: "0 < nElem fe_c" and d: "distinct (edof fe_c ! 0)" "\<forall>d \<in> set (edof fe_c ! 0). 1 \<le> d"
    by (simp_all add: fe_c_def)
  have out: "elem_c 1 0 5 (replicate (ncols (edof fe_c)) 0) (elemX fe_c ! 0) (elemY fe_c ! 0)
      ([1, 1, 1, 0][3 := 1]) (fe_mp fe_c) () ()
      = (eye 6, [0, 0, 0, 0, 0, 0], [0, 0, 0, 0, 0, 5], [1, 2, 3, 0, 0, 0], [3, 6, 0, 0, 0, 0])"
    by (simp add: elem_c_def fe_c_def ncols_def rep6)
  have sh: "length [0, 0, 0, 0, 0, 5::real] = length (edof fe_c ! 0)"
    "length (eye 6) = length (edof fe_c ! 0)" "\<forall>kr \<in> set (eye 6). length kr = length (edof fe_c ! 0)"
    by (simp_all add: fe_c_def eye_def)
  from fe_assemble_element[where elementFun = "elem_c 1 0 5" and self = fe_c and x = "[2]"
      and p = 3 and elem = 0 and Ke = "eye 6" and fext = "[0, 0, 0, 0, 0, 5]"
      and ep = "[1, 1, 1, 0]", OF fe_assemble_c el d out sh]
  obtain st st' where st: "foldE (fe_elem fe_c [2] 3 ([1, 1, 1, 0][3 := 1]) (elem_c 1 0 5) () ()) [0..<0]
       (asm0 [0, 0, 0, 0, 0, 1]) = Inr st"
    and rest: "foldE (fe_elem fe_c [2] 3 ([1, 1, 1, 0][3 := 1]) (elem_c 1 0 5) () ()) [Suc 0..<nElem fe_c] st' = Inr asm_c"
    and data: "a_data st' = a_data st @ map (\<lambda>k. k * power_int ([2] ! 0) 3) (concat (eye 6))"
    and f: "\<forall>k < length (edof fe_c ! 0).
          a_fextGlobal st' ! nat (edof fe_c ! 0 ! k - 1)
            = a_fextGlobal st ! nat (edof fe_c ! 0 ! k - 1) + [0, 0, 0, 0, 0, 5] ! k * [2] ! 0
        \<and> a_fext_tilde st' ! nat (edof fe_c ! 0 ! k - 1)
            = a_fext_tilde st ! nat (edof fe_c ! 0 ! k - 1) + [0, 0, 0, 0, 0, 5] ! k"
    by blast
  have s0: "st = asm0 [0, 0, 0, 0, 0, 1]" using st by simp
  have s1: "st' = asm_c" using rest by (simp add: fe_c_def)
  have "5 < length (edof fe_c ! 0)" by (simp add: fe_c_def)
  with f have "a_fextGlobal st' ! nat (edof fe_c ! 0 ! 5 - 1)
            = a_fextGlobal st ! nat (edof fe_c ! 0 ! 5 - 1) + [0, 0, 0, 0, 0, 5] ! 5 * [2] ! 0
        \<and> a_fext_tilde st' ! nat (edof fe_c ! 0 ! 5 - 1)
            = a_fext_tilde st ! nat (edof fe_c ! 0 ! 5 - 1) + [0, 0, 0, 0, 0, 5] ! 5"
    by blast
  then show ?thesis
    using data fe_assemble_c unfolding s0 s1 by (simp add: fe_c_def)
qed

subsection \<open>The accumulation of a Newton iteration\<close>






subsection \<open>Symmetry of the assembled stiffness\<close>

lemma block_sum_symmetric:
  fixes Ke :: mat
  assumes "\<forall>a < n. \<forall>b < n. Ke ! a ! b = Ke ! b ! a"
  shows "(\<Sum>a < n. \<Sum>b < n. if idx ! b = i \<and> idx ! a = j then f (Ke ! a ! b) else 0)
       = (\<Sum>a < n. \<Sum>b < n. if idx ! b = j \<and> idx ! a = i then f (Ke ! a ! b) else (0::real))"
proof -
  have "(\<Sum>a < n. \<Sum>b < n. if idx ! b = i \<and> idx ! a = j then f (Ke ! a ! b) else 0)
      = (\<Sum>b < n. \<Sum>a < n. if idx ! b = i \<and> idx ! a = j then f (Ke ! a ! b) else 0)"
    by (rule sum.swap)
  also have "\<dots> = (\<Sum>b < n. \<Sum>a < n. if idx ! a = j \<and> idx ! b = i then f (Ke ! b ! a) else 0)"
    using assms by (intro sum.cong refl) auto
  finally show ?thesis .
qed

lemma fe_assemble_symmetric:
  assumes run: "fe_assemble self x p F ep elementFun materialFun eq = Inr a"
    and sym: "symmetric_elements self (ep[3 := 1]) elementFun materialFun eq"
  shows "length (a_row a) = length (a_data a) \<and> length (a_col a) = length (a_data a)
     \<and> (\<forall>i j. tri_sum (zip (a_row a) (zip (a_col a) (a_data a))) i j
              = tri_sum (zip (a_row a) (zip (a_col a) (a_data a))) j i)"
proof -
  let ?f = "fe_elem self x p (ep[3 := 1]) elementFun materialFun eq"
  let ?Q = "\<lambda>(k::nat) t. length (a_row t) = length (a_data t) \<and> length (a_col t) = length (a_data t)
     \<and> (\<forall>i j. tri_sum (zip (a_row t) (zip (a_col t) (a_data t))) i j
              = tri_sum (zip (a_row t) (zip (a_col t) (a_data t))) j i)"
  from run have fold: "foldE ?f [0..<nElem self] (asm0 F) = Inr a"
    by (auto simp: fe_assemble_def bindE_Inr_iff set_linear_def split: if_splits)
  show ?thesis
  proof (rule foldE_upt_induct[OF fold, where P = ?Q])
    show "?Q 0 (asm0 F)" by (simp add: asm0_def tri_sum_def)
  next
    fix k t t'
    assume k: "k < nElem self" and Q: "?Q k t" and step: "?f t k = Inr t'"
    let ?r = "edof self ! k"
    let ?idx = "edofIndex ?r"
    from step show "?Q (Suc k) t'"
    proof (rule fe_elem_Inr)
      fix Ke fint fext stress epsilon fg ft
      assume out: "elementFun (replicate (ncols (edof self)) 0) (elemX self ! k) (elemY self ! k)
           (ep[3 := 1]) (fe_mp self) materialFun eq = (Ke, fint, fext, stress, epsilon)"
        and t': "t' = \<lparr>a_row = a_row t @ concat (replicate (length ?r) ?idx),
            a_col = a_col t @ concat (map (replicate (length ?r)) ?idx),
            a_data = a_data t @ map (\<lambda>k'. k' * power_int (x ! k) p) (concat Ke),
            a_fextGlobal = fg, a_fext_tilde = ft\<rparr>"
      from sym k out have sq: "length Ke = length ?r" "\<forall>kr \<in> set Ke. length kr = length ?r"
        and s: "\<forall>a < length ?r. \<forall>b < length ?r. Ke ! a ! b = Ke ! b ! a"
        by (auto simp: symmetric_elements_def)
      have idx_len: "length ?idx = length ?r" by (simp add: edofIndex_def)
      have cc: "length (concat Ke) = length ?r * length ?r"
        using sq by (simp add: length_concat sum_list_triv map_replicate_const[symmetric] cong: map_cong)
      have lens: "length (a_row t') = length (a_data t')" "length (a_col t') = length (a_data t')"
        using Q cc by (simp_all add: t' length_concat idx_len sum_list_replicate sum_list_triv comp_def)
      let ?blk = "zip (concat (replicate (length ?idx) ?idx))
                      (zip (concat (map (replicate (length ?idx)) ?idx))
                           (map (\<lambda>k'. k' * power_int (x ! k) p) (concat Ke)))"
      have app: "zip (a_row t') (zip (a_col t') (a_data t'))
            = zip (a_row t) (zip (a_col t) (a_data t)) @ ?blk"
        using Q by (simp add: t' idx_len)
      have blk: "\<And>i j. tri_sum ?blk i j = tri_sum ?blk j i"
      proof -
        fix i j
        have e: "\<And>i j. tri_sum ?blk i j = (\<Sum>a < length ?idx. \<Sum>b < length ?idx.
              if ?idx ! b = i \<and> ?idx ! a = j then Ke ! a ! b * power_int (x ! k) p else 0)"
          by (rule tri_sum_element) (use sq idx_len in auto)
        show "tri_sum ?blk i j = tri_sum ?blk j i"
          unfolding e using block_sum_symmetric[of "length ?idx" Ke ?idx i j "\<lambda>v. v * power_int (x ! k) p"] s idx_len
          by simp
      qed
      show "?Q (Suc k) t'"
        using lens Q blk unfolding app tri_sum_append by simp
    qed
  qed
qed

text \<open>
  Claim C8. If every stiffness matrix returned by the element routine is symmetric, the
  stiffness matrix that \<open>FE.fe\<close> assembles equals its transpose, for a density field with
  all-equal densities and penalty exponent 1. (The lemma above shows it for every
  density field and penalty.)
\<close>

theorem fe_stiffness_symmetric:
  assumes run: "fe self x p F ep elementFun materialFun eq spsolve = Inr (self', U', ft, fg, K)"
    and sym: "symmetric_elements self (ep[3 := 1]) elementFun materialFun eq"
    and dens: "\<forall>e < length x. x ! e = c" and pen: "p = 1"
  shows "entry K i j = entry K j i"
proof -
  from run obtain a where a: "fe_assemble self x p F ep elementFun materialFun eq = Inr a"
    and K: "coo_matrix (a_data a) (a_row a) (a_col a) (ndof self) = Inr K"
    by (auto simp: fe_def bindE_Inr_iff)
  from K have "triplets K = zip (a_row a) (zip (a_col a) (a_data a))"
    by (auto simp: coo_matrix_Inr_iff triplets_def)
  then show ?thesis
    using fe_assemble_symmetric[OF a sym] by (simp add: entry_def)
qed

lemmas eval_fe_full = fe_def solve_free_def submatrix_def entry_def triplets_def tri_sum_def
  coo_matrix_def assign_at_def solve_diag_def eval_fe

lemma fe_c_linear:
  "fe fe_c [2] 1 [0, 0, 0, 0, 0, 1] [1, 1, 1, 0] (elem_c 1 0 5) () () solve_diag
   = Inr (fe_c\<lparr>fe_U := [0, 0, 0, 0, 0, 11 / 2]\<rparr>, [0, 0, 0, 0, 0, 11 / 2],
          [0, 0, 0, 0, 0, 5], [0, 0, 0, 0, 0, 11], K_c 2)"
  by (simp add: eval_fe_full K_c_def)

lemma eye_symmetric: "a < n \<Longrightarrow> b < n \<Longrightarrow> eye n ! a ! b = eye n ! b ! a"
  by (simp add: eye_def)

theorem fe_stiffness_symmetric_witness:
  "fe fe_c [2] 1 [0, 0, 0, 0, 0, 1] [1, 1, 1, 0] (elem_c 1 0 5) () () solve_diag
   = Inr (fe_c\<lparr>fe_U := [0, 0, 0, 0, 0, 11 / 2]\<rparr>, [0, 0, 0, 0, 0, 11 / 2],
          [0, 0, 0, 0, 0, 5], [0, 0, 0, 0, 0, 11], K_c 2)
   \<and> entry (K_c 2) 4 5 = entry (K_c 2) 5 4"
proof -
  have sym: "symmetric_elements fe_c ([1, 1, 1, 0][3 := 1]) (elem_c 1 0 5) () ()"
    by (simp add: symmetric_elements_def fe_c_def elem_c_def eye_symmetric) (simp add: eye_def)
  have dens: "\<forall>e < length [2::real]. [2] ! e = (2::real)" by simp
  show ?thesis
    using fe_stiffness_symmetric[where elementFun = "elem_c 1 0 5" and self = fe_c
        and x = "[2]" and c = 2 and i = 4 and j = 5, OF fe_c_linear sym dens refl]
      fe_c_linear
    by simp
qed

subsection \<open>The Newton loop\<close>

lemma newton_residual_Inr:
  assumes "newton_residual x p F ep elementFun materialFun eq st = Inr (st1, R)"
  obtains a K Rf where
    "nl_assemble x p F ep elementFun materialFun eq st = Inr a"
    "coo_matrix (a_data a) (a_row a) (a_col a) (ndof (n_self st)) = Inr K"
    "np_sub (a_fintGlobal a) (a_fextGlobal a) = Inr R"
    "take_at R (map int (freedofs (n_self st))) = Inr Rf"
    "st1 = st\<lparr>n_err := norm2 Rf, n_newtonIt := n_newtonIt st + 1, n_dR := a_dR a,
               n_sig_VM := a_sig_VM a, n_eps_h := a_eps_h a,
               n_fext_tilde := a_fext_tilde a, n_fextGlobal := a_fextGlobal a,
               n_K := K\<rparr>"
  using assms unfolding newton_residual_def bindE_Inr_iff by blast

lemma newton_update_Inr:
  assumes "newton_update spsolve st R = Inr st2"
  obtains tol Uf s Unew U' where
    "new_TOL (n_fextGlobal st) = Inr tol"
    "take_at (fe_U (n_self st)) (map int (freedofs (n_self st))) = Inr Uf"
    "solve_free spsolve (n_K st) (freedofs (n_self st)) R = Inr s"
    "np_sub Uf s = Inr Unew"
    "assign_at (fe_U (n_self st)) (map int (freedofs (n_self st))) Unew = Inr U'"
    "st2 = st\<lparr>n_TOL := tol, n_self := (n_self st)\<lparr>fe_U := U'\<rparr>\<rparr>"
  using assms unfolding newton_update_def bindE_Inr_iff by blast

lemma newton_body_Inr:
  assumes "newton_body x p F ep elementFun materialFun eq spsolve st = Inr (st', brk)"
  obtains st1 R where
    "newton_residual x p F ep elementFun materialFun eq st = Inr (st1, R)"
    "brk \<longleftrightarrow> n_newtonIt st1 = 100"
    "brk \<Longrightarrow> st' = st1"
    "\<not> brk \<Longrightarrow> newton_update spsolve st1 R = Inr st'"
  using assms unfolding newton_body_def
  by (auto simp: bindE_Inr_iff split: if_splits)

lemma newton_body_Inl:
  assumes "newton_body x p F ep elementFun materialFun eq spsolve st = Inl e"
  shows "newton_residual x p F ep elementFun materialFun eq st = Inl e
    \<or> (\<exists>st1 R. newton_residual x p F ep elementFun materialFun eq st = Inr (st1, R)
          \<and> n_newtonIt st1 \<noteq> 100 \<and> newton_update spsolve st1 R = Inl e)"
  using assms unfolding newton_body_def
  by (auto simp: bindE_Inl_iff split: if_splits)




lemma norm2_single: "norm2 [r] = \<bar>r\<bar>"
  by (simp add: norm2_def)

lemmas eval_newton = newton_body_def newton_residual_def newton_update_def new_TOL_def
  np_sub_def norm2_single solve_free_def submatrix_def entry_def triplets_def tri_sum_def
  coo_matrix_def assign_at_def solve_diag_def eval_defs K_c_def






subsection \<open>Residual and tolerance\<close>

lemma py_indices_nat: "\<forall>i \<in> set js. i < n \<Longrightarrow> py_indices n (map int js) = Inr js"
  by (induction js) (auto simp: py_index_def)

lemma take_at_nat:
  "take_at a (map int js) = Inr v \<Longrightarrow> v = map (\<lambda>j. a ! j) js \<and> (\<forall>j \<in> set js. j < length a)"
  using py_indices_nonneg[of "length a" "map int js"]
  by (auto simp: take_at_def bindE_Inr_iff comp_def)

lemma new_TOL_Inr:
  assumes "new_TOL fg = Inr tol"
  shows "fg \<noteq> [] \<and> tol = 1 / 10 ^ 11 * max (Max (set (map abs fg))) (10 ^ 4)"
proof (cases fg)
  case Nil
  then show ?thesis using assms by (simp add: new_TOL_def)
next
  case (Cons a as)
  have "Max (set (map abs (a # as))) = fold max (map abs as) \<bar>a\<bar>"
    using Max.set_eq_fold[of "\<bar>a\<bar>" "map abs as"] by simp
  then show ?thesis using Cons assms by (auto simp: new_TOL_def)
qed

lemma np_sub_same_length:
  "np_sub a b = Inr R \<Longrightarrow> length a = length b \<Longrightarrow>
     length R = length a \<and> (\<forall>i < length a. R ! i = a ! i - b ! i)"
  by (auto simp: np_sub_def)

text \<open>
  Claim C3, amended. In a pass of the Newton loop that does not leave by \<open>break\<close>, the
  residual is \<open>R = fintGlobal - fextGlobal\<close> over the full DOF vector, the convergence
  metric is the Euclidean norm of \<open>R\<close> restricted to the free DOFs, and the pass sets the
  tolerance to \<open>1e-11 * max(max(|fextGlobal|), 1e4)\<close>. The loop condition evaluated after
  the pass compares the residual norm of that pass with the tolerance set in that same
  pass: the loop ends there if the norm is at most the updated tolerance and goes on
  otherwise. (The bootstrap tolerance \<open>1e-11\<close> is only ever compared with the initial
  error \<open>1e9\<close>, at the first evaluation of the loop condition.)
\<close>

theorem newton_tolerance:
  assumes pass: "newton_body x p F ep elementFun materialFun eq spsolve st = Inr (st', False)"
    and ent: "n_err st > n_TOL st"
  shows "\<exists>a R.
      nl_assemble x p F ep elementFun materialFun eq st = Inr a
    \<and> np_sub (a_fintGlobal a) (a_fextGlobal a) = Inr R
    \<and> (length (a_fintGlobal a) = length (a_fextGlobal a) \<longrightarrow>
         (\<forall>i < length R. R ! i = a_fintGlobal a ! i - a_fextGlobal a ! i))
    \<and> n_err st' = sqrt (\<Sum>i \<leftarrow> freedofs (n_self st). R ! i * R ! i)
    \<and> n_fextGlobal st' = a_fextGlobal a \<and> a_fextGlobal a \<noteq> []
    \<and> n_TOL st' = 1 / 10 ^ 11 * max (Max (set (map abs (a_fextGlobal a)))) (10 ^ 4)
    \<and> (n_err st' \<le> n_TOL st' \<longrightarrow>
         newton_loop (newton_body x p F ep elementFun materialFun eq spsolve) st
           = Some (Inr st'))
    \<and> (n_err st' > n_TOL st' \<longrightarrow>
         newton_loop (newton_body x p F ep elementFun materialFun eq spsolve) st
           = newton_loop (newton_body x p F ep elementFun materialFun eq spsolve) st')
    \<and> (\<forall>self self1 U1 ft fg K.
          fe self x p F ep elementFun materialFun eq spsolve = Inr (self1, U1, ft, fg, K)
          \<and> ep ! 3 \<noteq> 1 \<longrightarrow>
          (\<exists>st0. n_err st0 = 10 ^ 9 \<and> n_TOL st0 = 1 / 10 ^ 11 \<and> n_newtonIt st0 = 0
             \<and> n_self st0 = self1 \<and> n_err st0 > n_TOL st0
             \<and> fe_nl self x p F ep elementFun materialFun eq spsolve
                 = (case newton_loop (newton_body x p F ep elementFun materialFun eq spsolve) st0
                    of None \<Rightarrow> None
                     | Some (Inl e) \<Rightarrow> Some (Inl e)
                     | Some (Inr s) \<Rightarrow>
                         Some (Inr (n_self s, fe_U (n_self s), n_dR s, n_sig_VM s,
                                    n_fext_tilde s, n_fextGlobal s, n_eps_h s,
                                    freedofs (n_self s), n_K s)))))"
proof -
  let ?body = "newton_body x p F ep elementFun materialFun eq spsolve"
  obtain st1 R where r: "newton_residual x p F ep elementFun materialFun eq st = Inr (st1, R)"
    and u: "newton_update spsolve st1 R = Inr st'"
    by (rule newton_body_Inr[OF pass]) blast
  from r obtain a K Rf where a: "nl_assemble x p F ep elementFun materialFun eq st = Inr a"
    and R: "np_sub (a_fintGlobal a) (a_fextGlobal a) = Inr R"
    and Rf: "take_at R (map int (freedofs (n_self st))) = Inr Rf"
    and st1: "st1 = st\<lparr>n_err := norm2 Rf, n_newtonIt := n_newtonIt st + 1, n_dR := a_dR a,
               n_sig_VM := a_sig_VM a, n_eps_h := a_eps_h a,
               n_fext_tilde := a_fext_tilde a, n_fextGlobal := a_fextGlobal a,
               n_K := K\<rparr>"
    by (rule newton_residual_Inr)
  from u obtain tol U' where tol: "new_TOL (n_fextGlobal st1) = Inr tol"
    and st': "st' = st1\<lparr>n_TOL := tol, n_self := (n_self st1)\<lparr>fe_U := U'\<rparr>\<rparr>"
    by (rule newton_update_Inr)
  have err: "n_err st' = sqrt (\<Sum>i \<leftarrow> freedofs (n_self st). R ! i * R ! i)"
    using take_at_nat[OF Rf] by (simp add: st' st1 norm2_def comp_def)
  have T: "a_fextGlobal a \<noteq> []"
    "n_TOL st' = 1 / 10 ^ 11 * max (Max (set (map abs (a_fextGlobal a)))) (10 ^ 4)"
    using new_TOL_Inr[OF tol] by (simp_all add: st' st1)
  have loop: "newton_loop ?body st = (if n_err st' > n_TOL st' then newton_loop ?body st' else Some (Inr st'))"
    using ent pass
    by (subst newton_loop.simps, simp, subst newton_loop.simps) simp
  have start: "\<forall>self self1 U1 ft fg K.
          fe self x p F ep elementFun materialFun eq spsolve = Inr (self1, U1, ft, fg, K)
          \<and> ep ! 3 \<noteq> 1 \<longrightarrow>
          (\<exists>st0. n_err st0 = 10 ^ 9 \<and> n_TOL st0 = 1 / 10 ^ 11 \<and> n_newtonIt st0 = 0
             \<and> n_self st0 = self1 \<and> n_err st0 > n_TOL st0
             \<and> fe_nl self x p F ep elementFun materialFun eq spsolve
                 = (case newton_loop ?body st0
                    of None \<Rightarrow> None
                     | Some (Inl e) \<Rightarrow> Some (Inl e)
                     | Some (Inr s) \<Rightarrow>
                         Some (Inr (n_self s, fe_U (n_self s), n_dR s, n_sig_VM s,
                                    n_fext_tilde s, n_fextGlobal s, n_eps_h s,
                                    freedofs (n_self s), n_K s))))"
  proof (intro allI impI)
    fix self self1 U1 ft fg K
    assume h: "fe self x p F ep elementFun materialFun eq spsolve = Inr (self1, U1, ft, fg, K)
          \<and> ep ! 3 \<noteq> 1"
    show "\<exists>st0. n_err st0 = 10 ^ 9 \<and> n_TOL st0 = 1 / 10 ^ 11 \<and> n_newtonIt st0 = 0
             \<and> n_self st0 = self1 \<and> n_err st0 > n_TOL st0
             \<and> fe_nl self x p F ep elementFun materialFun eq spsolve
                 = (case newton_loop ?body st0
                    of None \<Rightarrow> None
                     | Some (Inl e) \<Rightarrow> Some (Inl e)
                     | Some (Inr s) \<Rightarrow>
                         Some (Inr (n_self s, fe_U (n_self s), n_dR s, n_sig_VM s,
                                    n_fext_tilde s, n_fextGlobal s, n_eps_h s,
                                    freedofs (n_self s), n_K s)))"
      using h
      by (intro exI[of _ "\<lparr>n_self = self1, n_err = 10 ^ 9, n_TOL = 1 / 10 ^ 11,
             n_newtonIt = 0, n_dR = [], n_sig_VM = replicate (length x) 0,
             n_eps_h = replicate (length x) 0, n_fext_tilde = ft,
             n_fextGlobal = fg, n_K = K\<rparr>"]) (simp add: fe_nl_def)
  qed
  have main: "nl_assemble x p F ep elementFun materialFun eq st = Inr a
    \<and> np_sub (a_fintGlobal a) (a_fextGlobal a) = Inr R
    \<and> (length (a_fintGlobal a) = length (a_fextGlobal a) \<longrightarrow>
         (\<forall>i < length R. R ! i = a_fintGlobal a ! i - a_fextGlobal a ! i))
    \<and> n_err st' = sqrt (\<Sum>i \<leftarrow> freedofs (n_self st). R ! i * R ! i)
    \<and> n_fextGlobal st' = a_fextGlobal a \<and> a_fextGlobal a \<noteq> []
    \<and> n_TOL st' = 1 / 10 ^ 11 * max (Max (set (map abs (a_fextGlobal a)))) (10 ^ 4)
    \<and> (n_err st' \<le> n_TOL st' \<longrightarrow> newton_loop ?body st = Some (Inr st'))
    \<and> (n_err st' > n_TOL st' \<longrightarrow> newton_loop ?body st = newton_loop ?body st')"
    using a R err T loop np_sub_same_length[OF R] by (simp add: st' st1)
  show ?thesis
    using main start by (intro exI[of _ a] exI[of _ R] conjI) blast+
qed

lemma cv_pass:
  "newton_body [1] 3 Fc epc (elem_c 1 (1 / 10 ^ 8) 0) () () solve_diag (nl_st0 1)
   = Inr (cv_state, False)"
  by (simp add: eval_newton nl_st0_def cv_state_def)

lemma cv_run:
  "newton_loop (newton_body [1] 3 Fc epc (elem_c 1 (1 / 10 ^ 8) 0) () () solve_diag) (nl_st0 1)
   = Some (Inr cv_state)"
proof -
  let ?B = "newton_body [1] 3 Fc epc (elem_c 1 (1 / 10 ^ 8) 0) () () solve_diag"
  have ent: "n_err (nl_st0 1) > n_TOL (nl_st0 1)"
    by (simp add: nl_st0_def)
  have stop: "\<not> n_err cv_state > n_TOL cv_state"
    by (simp add: cv_state_def)
  have "newton_loop ?B (nl_st0 1) = newton_loop ?B cv_state"
    by (subst newton_loop.simps) (simp only: ent cv_pass if_True if_False sum.case prod.case)
  also have "\<dots> = Some (Inr cv_state)"
    by (subst newton_loop.simps) (simp only: stop if_False)
  finally show ?thesis .
qed

text \<open>
  Claim C3 as stated fails: entered with the bootstrap tolerance \<open>1e-11\<close>, the first pass
  computes the residual norm \<open>1e-8\<close>, which exceeds the bootstrap tolerance; the loop
  nevertheless ends after this one pass, because the norm is compared with the tolerance
  \<open>1e-7\<close> that the pass has just set.
\<close>

theorem newton_tolerance_counterexample:
  "n_TOL (nl_st0 1) = 1 / 10 ^ 11
   \<and> newton_body [1] 3 Fc epc (elem_c 1 (1 / 10 ^ 8) 0) () () solve_diag (nl_st0 1)
       = Inr (cv_state, False)
   \<and> n_err cv_state = 1 / 10 ^ 8
   \<and> n_err cv_state > n_TOL (nl_st0 1)
   \<and> newton_loop (newton_body [1] 3 Fc epc (elem_c 1 (1 / 10 ^ 8) 0) () () solve_diag) (nl_st0 1)
       = Some (Inr cv_state)
   \<and> n_newtonIt cv_state = 1"
  using cv_pass cv_run by (simp add: nl_st0_def cv_state_def)

theorem newton_tolerance_witness:
  "newton_body [1] 3 Fc epc (elem_c 1 (1 / 10 ^ 8) 0) () () solve_diag (nl_st0 1)
       = Inr (cv_state, False)
   \<and> n_TOL cv_state = 1 / 10 ^ 11 * max (Max (set (map abs Fc))) (10 ^ 4)
   \<and> n_err cv_state \<le> n_TOL cv_state
   \<and> newton_loop (newton_body [1] 3 Fc epc (elem_c 1 (1 / 10 ^ 8) 0) () () solve_diag) (nl_st0 1)
       = Some (Inr cv_state)"
proof -
  have ent: "n_err (nl_st0 1) > n_TOL (nl_st0 1)" by (simp add: nl_st0_def)
  have le: "n_err cv_state \<le> n_TOL cv_state" by (simp add: cv_state_def)
  have fg: "n_fextGlobal cv_state = Fc" by (simp add: cv_state_def)
  have th: "\<exists>a R.
      nl_assemble [1] 3 Fc epc (elem_c 1 (1 / 10 ^ 8) 0) () () (nl_st0 1) = Inr a
    \<and> np_sub (a_fintGlobal a) (a_fextGlobal a) = Inr R
    \<and> (length (a_fintGlobal a) = length (a_fextGlobal a) \<longrightarrow>
         (\<forall>i < length R. R ! i = a_fintGlobal a ! i - a_fextGlobal a ! i))
    \<and> n_err cv_state = sqrt (\<Sum>i \<leftarrow> freedofs (n_self (nl_st0 1)). R ! i * R ! i)
    \<and> n_fextGlobal cv_state = a_fextGlobal a \<and> a_fextGlobal a \<noteq> []
    \<and> n_TOL cv_state = 1 / 10 ^ 11 * max (Max (set (map abs (a_fextGlobal a)))) (10 ^ 4)
    \<and> (n_err cv_state \<le> n_TOL cv_state \<longrightarrow>
         newton_loop (newton_body [1] 3 Fc epc (elem_c 1 (1 / 10 ^ 8) 0) () () solve_diag)
           (nl_st0 1) = Some (Inr cv_state))
    \<and> (n_err cv_state > n_TOL cv_state \<longrightarrow>
         newton_loop (newton_body [1] 3 Fc epc (elem_c 1 (1 / 10 ^ 8) 0) () () solve_diag)
           (nl_st0 1)
           = newton_loop (newton_body [1] 3 Fc epc (elem_c 1 (1 / 10 ^ 8) 0) () () solve_diag)
               cv_state)
    \<and> (\<forall>self self1 U1 ft fg K.
          fe self [1] 3 Fc epc (elem_c 1 (1 / 10 ^ 8) 0) () () solve_diag
            = Inr (self1, U1, ft, fg, K)
          \<and> epc ! 3 \<noteq> 1 \<longrightarrow>
          (\<exists>st0. n_err st0 = 10 ^ 9 \<and> n_TOL st0 = 1 / 10 ^ 11 \<and> n_newtonIt st0 = 0
             \<and> n_self st0 = self1 \<and> n_err st0 > n_TOL st0
             \<and> fe_nl self [1] 3 Fc epc (elem_c 1 (1 / 10 ^ 8) 0) () () solve_diag
                 = (case newton_loop
                           (newton_body [1] 3 Fc epc (elem_c 1 (1 / 10 ^ 8) 0) () () solve_diag)
                           st0
                    of None \<Rightarrow> None
                     | Some (Inl e) \<Rightarrow> Some (Inl e)
                     | Some (Inr s) \<Rightarrow>
                         Some (Inr (n_self s, fe_U (n_self s), n_dR s, n_sig_VM s,
                                    n_fext_tilde s, n_fextGlobal s, n_eps_h s,
                                    freedofs (n_self s), n_K s)))))"
    by (rule newton_tolerance[where elementFun = "elem_c 1 (1 / 10 ^ 8) 0" and st = "nl_st0 1"
      and x = "[1]" and p = 3 and F = Fc and ep = epc and spsolve = solve_diag
      and materialFun = "()" and eq = "()" and st' = cv_state, OF cv_pass ent])
  have "n_TOL cv_state = 1 / 10 ^ 11 * max (Max (set (map abs Fc))) (10 ^ 4)
    \<and> newton_loop (newton_body [1] 3 Fc epc (elem_c 1 (1 / 10 ^ 8) 0) () () solve_diag)
           (nl_st0 1) = Some (Inr cv_state)"
    using th le unfolding fg by (elim exE conjE) (simp only: simp_thms)
  then show ?thesis
    using le cv_pass by simp
qed

subsection \<open>The linear exit of \<open>fe_nl\<close>\<close>

lemma fe_Inr:
  assumes "fe self x p F ep elementFun materialFun eq spsolve = Inr (self1, U1, ft, fg, K)"
  obtains a s where
    "fe_assemble self x p F ep elementFun materialFun eq = Inr a"
    "coo_matrix (a_data a) (a_row a) (a_col a) (ndof self) = Inr K"
    "solve_free spsolve K (freedofs self) (a_fextGlobal a) = Inr s"
    "assign_at (fe_U self) (map int (freedofs self)) s = Inr U1"
    "self1 = self\<lparr>fe_U := U1\<rparr>" "ft = a_fext_tilde a" "fg = a_fextGlobal a"
  using assms unfolding fe_def bindE_Inr_iff by blast

text \<open>
  Claim C5, amended. When the linear flag \<open>ep[3]\<close> is 1, \<open>fe_nl\<close> makes no Newton
  iteration: it returns right after its one call of \<open>fe\<close>, with the displacement, the two
  force vectors and the stiffness matrix of that call, an empty residual derivative and
  an empty von Mises stress, and a hydrostatic strain that is not empty but holds one
  zero per entry of the density field. A call of \<open>fe\<close> that raises makes \<open>fe_nl\<close> raise
  the same.
\<close>

theorem fe_nl_linear:
  assumes "ep ! 3 = 1"
  shows "fe_nl self x p F ep elementFun materialFun eq spsolve
         = (case fe self x p F ep elementFun materialFun eq spsolve of
              Inl e \<Rightarrow> Some (Inl e)
            | Inr (self1, U1, fext_tilde, fextGlobal, K) \<Rightarrow>
                Some (Inr (self1, U1, [], [], fext_tilde, fextGlobal,
                           replicate (length x) 0, freedofs self, K)))
       \<and> (\<forall>self1 U1 ft fg K.
            fe self x p F ep elementFun materialFun eq spsolve = Inr (self1, U1, ft, fg, K)
            \<longrightarrow> fe_U self1 = U1 \<and> freedofs self1 = freedofs self)"
proof -
  have fr: "fe_U self1 = U1 \<and> freedofs self1 = freedofs self"
    if "fe self x p F ep elementFun materialFun eq spsolve = Inr (self1, U1, ft, fg, K)"
    for self1 U1 ft fg K
    by (rule fe_Inr[OF that]) simp
  show ?thesis
  proof (cases "fe self x p F ep elementFun materialFun eq spsolve")
    case (Inl e)
    then show ?thesis by (simp add: fe_nl_def)
  next
    case (Inr res)
    obtain self1 U1 ft fg K where res: "res = (self1, U1, ft, fg, K)" by (cases res)
    show ?thesis
      using Inr res assms fr[OF Inr[unfolded res]] by (simp add: fe_nl_def)
  qed
qed

lemma fe_c_linear1:
  "fe fe_c [2] 1 Fc [1, 1, 1, 1] (elem_c 1 0 5) () () solve_diag
   = Inr (fe_c\<lparr>fe_U := [0, 0, 0, 0, 0, 11 / 2]\<rparr>, [0, 0, 0, 0, 0, 11 / 2],
          [0, 0, 0, 0, 0, 5], [0, 0, 0, 0, 0, 11], K_c 2)"
  by (simp add: eval_fe_full K_c_def)

text \<open>
  Claim C5 as stated fails: with the linear flag set and one element, the hydrostatic
  strain returned is \<open>[0]\<close>, not the empty list.
\<close>

theorem fe_nl_linear_counterexample:
  "fe_nl fe_c [2] 1 Fc [1, 1, 1, 1] (elem_c 1 0 5) () () solve_diag
   = Some (Inr (fe_c\<lparr>fe_U := [0, 0, 0, 0, 0, 11 / 2]\<rparr>, [0, 0, 0, 0, 0, 11 / 2], [], [],
                [0, 0, 0, 0, 0, 5], [0, 0, 0, 0, 0, 11], [0], [5], K_c 2))
   \<and> [0 :: real] \<noteq> []"
  by (simp add: fe_nl_def fe_c_linear1) (simp add: fe_c_def)

theorem fe_nl_linear_witness:
  "[1, 1, 1, 1 :: real] ! 3 = 1
   \<and> fe_nl fe_c [2] 1 Fc [1, 1, 1, 1] (elem_c 1 0 5) () () solve_diag
   = Some (Inr (fe_c\<lparr>fe_U := [0, 0, 0, 0, 0, 11 / 2]\<rparr>, [0, 0, 0, 0, 0, 11 / 2], [], [],
                [0, 0, 0, 0, 0, 5], [0, 0, 0, 0, 0, 11], replicate (length [2 :: real]) 0,
                freedofs fe_c, K_c 2))"
proof -
  have l: "[1, 1, 1, 1 :: real] ! 3 = 1" by simp
  show ?thesis
    using fe_nl_linear[where elementFun = "elem_c 1 0 5" and self = fe_c and x = "[2]" and p = 1
        and F = Fc and ep = "[1, 1, 1, 1]" and spsolve = solve_diag and materialFun = "()"
        and eq = "()", OF l]
    unfolding fe_c_linear1 by simp
qed

subsection \<open>The displacement at the fixed DOFs\<close>

lemma newton_loop_invariant:
  assumes run: "newton_loop body st = Some (Inr st')"
    and init: "I st"
    and step: "\<And>s s' b. I s \<Longrightarrow> body s = Inr (s', b) \<Longrightarrow> I s'"
  shows "I st'"
proof -
  let ?P = "\<lambda>(body :: newton \<Rightarrow> error + newton \<times> bool) st (y :: error + newton).
      (\<forall>s s' b. I s \<longrightarrow> body s = Inr (s', b) \<longrightarrow> I s') \<longrightarrow> I st
          \<longrightarrow> (\<forall>t. y = Inr t \<longrightarrow> I t)"
  have "?P body st (Inr st')"
  proof (rule newton_loop.raw_induct[where P = ?P, OF _ run])
    fix loop :: "(newton \<Rightarrow> error + newton \<times> bool) \<Rightarrow> newton \<Rightarrow> (error + newton) option"
    fix body st y
    assume IH: "\<And>b s z. loop b s = Some z \<Longrightarrow> ?P b s z"
      and eq: "(if n_TOL st < n_err st
                then case body st of Inl e \<Rightarrow> Some (Inl e)
                     | Inr (st', brk) \<Rightarrow> if brk then Some (Inr st') else loop body st'
                else Some (Inr st)) = Some y"
    show "?P body st y"
    proof (intro impI allI)
      fix t
      assume st: "\<forall>s s' b. I s \<longrightarrow> body s = Inr (s', b) \<longrightarrow> I s'" and i: "I st"
        and y: "y = Inr t"
      show "I t"
      proof (cases "n_TOL st < n_err st")
        case False
        with eq y i show ?thesis by simp
      next
        case True
        show ?thesis
        proof (cases "body st")
          case (Inl e)
          with eq True y show ?thesis by simp
        next
          case (Inr sb)
          obtain s' b where sb: "sb = (s', b)" by (cases sb)
          have i': "I s'" using st i Inr sb by blast
          show ?thesis
          proof (cases b)
            case True
            with eq \<open>n_TOL st < n_err st\<close> Inr sb y i' show ?thesis by simp
          next
            case False
            with eq \<open>n_TOL st < n_err st\<close> Inr sb have "loop body s' = Some y" by simp
            from IH[OF this] st i' y show ?thesis by simp
          qed
        qed
      qed
    qed
  qed
  with init step show ?thesis by blast
qed

lemma assign_at_frame:
  assumes "assign_at a (map int js) w = Inr a'"
  shows "length a' = length a" and "\<forall>i. i \<notin> set js \<longrightarrow> a' ! i = a ! i"
proof -
  from assms obtain ks w' where ks: "py_indices (length a) (map int js) = Inr ks"
    and a': "a' = put_at a ks w'"
    by (auto simp: assign_at_def bindE_Inr_iff)
  have "ks = js" using py_indices_nonneg[OF ks] by (simp add: comp_def)
  then show "length a' = length a" and "\<forall>i. i \<notin> set js \<longrightarrow> a' ! i = a ! i"
    using a' by (simp_all add: put_at_notin)
qed

lemma fe_frame:
  assumes "fe self x p F ep elementFun materialFun eq spsolve = Inr (self1, U1, ft, fg, K)"
  shows "fe_U self1 = U1 \<and> freedofs self1 = freedofs self \<and> length U1 = length (fe_U self)
       \<and> (\<forall>i. i \<notin> set (freedofs self) \<longrightarrow> U1 ! i = fe_U self ! i)"
  by (rule fe_Inr[OF assms]) (use assign_at_frame in auto)

lemma newton_body_frame:
  assumes "newton_body x p F ep elementFun materialFun eq spsolve st = Inr (st', brk)"
  shows "freedofs (n_self st') = freedofs (n_self st)
       \<and> length (fe_U (n_self st')) = length (fe_U (n_self st))
       \<and> (\<forall>i. i \<notin> set (freedofs (n_self st)) \<longrightarrow> fe_U (n_self st') ! i = fe_U (n_self st) ! i)"
proof -
  obtain st1 R where r: "newton_residual x p F ep elementFun materialFun eq st = Inr (st1, R)"
    and t: "brk \<Longrightarrow> st' = st1" and u: "\<not> brk \<Longrightarrow> newton_update spsolve st1 R = Inr st'"
    by (rule newton_body_Inr[OF assms]) blast
  from r have s1: "n_self st1 = n_self st"
    by (auto elim!: newton_residual_Inr)
  show ?thesis
  proof (cases brk)
    case True
    then show ?thesis using t s1 by simp
  next
    case False
    from u[OF False] obtain Unew U' where
      as: "assign_at (fe_U (n_self st1)) (map int (freedofs (n_self st1))) Unew = Inr U'"
      and st': "st' = st1\<lparr>n_TOL := n_TOL st', n_self := (n_self st1)\<lparr>fe_U := U'\<rparr>\<rparr>"
      by (rule newton_update_Inr) auto
    have "n_self st' = (n_self st1)\<lparr>fe_U := U'\<rparr>" by (subst st') simp
    then show ?thesis using assign_at_frame[OF as] s1 by simp
  qed
qed

text \<open>
  Claim C6. \<open>FE.fe\<close> and every pass of the Newton loop of \<open>FE.fe_nl\<close> write the
  displacement vector only through the index array of the free DOFs: the linear solve of
  \<open>fe\<close> and the Newton step assign the free entries, and every entry at a DOF that is
  not free keeps its value. Hence, through a whole call of \<open>fe_nl\<close>, an entry at a fixed
  DOF that was zero before the call is zero in the displacement returned.
\<close>

theorem fixed_dofs_unchanged:
  "(\<forall>self1 U1 ft fg K.
      fe self x p F ep elementFun materialFun eq spsolve = Inr (self1, U1, ft, fg, K)
      \<longrightarrow> fe_U self1 = U1 \<and> freedofs self1 = freedofs self \<and> length U1 = length (fe_U self)
        \<and> (\<forall>i. i \<notin> set (freedofs self) \<longrightarrow> U1 ! i = fe_U self ! i))
 \<and> (\<forall>st st' brk.
      newton_body x p F ep elementFun materialFun eq spsolve st = Inr (st', brk)
      \<longrightarrow> freedofs (n_self st') = freedofs (n_self st)
        \<and> length (fe_U (n_self st')) = length (fe_U (n_self st))
        \<and> (\<forall>i. i \<notin> set (freedofs (n_self st))
              \<longrightarrow> fe_U (n_self st') ! i = fe_U (n_self st) ! i))
 \<and> (\<forall>self2 U2 dR sv ft fg eh fr K.
      fe_nl self x p F ep elementFun materialFun eq spsolve
        = Some (Inr (self2, U2, dR, sv, ft, fg, eh, fr, K))
      \<longrightarrow> fe_U self2 = U2 \<and> fr = freedofs self \<and> length U2 = length (fe_U self)
        \<and> (\<forall>i. i \<notin> set (freedofs self) \<longrightarrow> U2 ! i = fe_U self ! i)
        \<and> (\<forall>i. i \<notin> set (freedofs self) \<and> fe_U self ! i = 0 \<longrightarrow> U2 ! i = 0))"
proof -
  have A: "fe_U self1 = U1 \<and> freedofs self1 = freedofs self \<and> length U1 = length (fe_U self)
        \<and> (\<forall>i. i \<notin> set (freedofs self) \<longrightarrow> U1 ! i = fe_U self ! i)"
    if "fe self x p F ep elementFun materialFun eq spsolve = Inr (self1, U1, ft, fg, K)"
    for self1 U1 ft fg K
    by (rule fe_frame[OF that])
  have B: "freedofs (n_self st') = freedofs (n_self st)
        \<and> length (fe_U (n_self st')) = length (fe_U (n_self st))
        \<and> (\<forall>i. i \<notin> set (freedofs (n_self st))
              \<longrightarrow> fe_U (n_self st') ! i = fe_U (n_self st) ! i)"
    if "newton_body x p F ep elementFun materialFun eq spsolve st = Inr (st', brk)"
    for st st' brk
    by (rule newton_body_frame[OF that])
  have C: "fe_U self2 = U2 \<and> fr = freedofs self \<and> length U2 = length (fe_U self)
        \<and> (\<forall>i. i \<notin> set (freedofs self) \<longrightarrow> U2 ! i = fe_U self ! i)
        \<and> (\<forall>i. i \<notin> set (freedofs self) \<and> fe_U self ! i = 0 \<longrightarrow> U2 ! i = 0)"
    if h: "fe_nl self x p F ep elementFun materialFun eq spsolve
        = Some (Inr (self2, U2, dR, sv, ft, fg, eh, fr, K))"
    for self2 U2 dR sv ft fg eh fr K
  proof -
    let ?I = "\<lambda>s. freedofs (n_self s) = freedofs self
         \<and> length (fe_U (n_self s)) = length (fe_U self)
         \<and> (\<forall>i. i \<notin> set (freedofs self) \<longrightarrow> fe_U (n_self s) ! i = fe_U self ! i)"
    let ?body = "newton_body x p F ep elementFun materialFun eq spsolve"
    have step: "?I s'" if "?I s" "?body s = Inr (s', b)" for s s' b
      using newton_body_frame[OF that(2)] that(1) by simp
    from h obtain self1 U1 ft1 fg1 K1 where
      f: "fe self x p F ep elementFun materialFun eq spsolve = Inr (self1, U1, ft1, fg1, K1)"
      by (cases "fe self x p F ep elementFun materialFun eq spsolve")
         (auto simp: fe_nl_def)
    note fr = fe_frame[OF f]
    have "fe_U self2 = U2 \<and> fr = freedofs self \<and> length U2 = length (fe_U self)
          \<and> (\<forall>i. i \<notin> set (freedofs self) \<longrightarrow> U2 ! i = fe_U self ! i)"
    proof (cases "ep ! 3 = 1")
      case True
      have e: "fe_nl self x p F ep elementFun materialFun eq spsolve
          = Some (Inr (self1, U1, [], [], ft1, fg1, replicate (length x) 0, freedofs self1, K1))"
        using f True by (simp add: fe_nl_def)
      note te = h[unfolded e option.inject sum.inject]
      have "self1 = self2"
        using arg_cong[OF te, of fst] by (simp only: fst_conv)
      moreover have "U1 = U2"
        using arg_cong[OF te, of "\<lambda>t. fst (snd t)"] by (simp only: fst_conv snd_conv)
      moreover have "freedofs self1 = fr"
        using arg_cong[OF te, of "\<lambda>t. fst (snd (snd (snd (snd (snd (snd (snd t)))))))"]
        by (simp only: fst_conv snd_conv)
      ultimately have s: "self1 = self2" and u: "U1 = U2" and f3: "freedofs self1 = fr"
        by simp_all
      have "freedofs self = fr"
        using fr f3 by (simp only:)
      then show ?thesis
        using fr[unfolded s u] by blast
    next
      case False
      let ?st0 = "\<lparr>n_self = self1, n_err = 10 ^ 9, n_TOL = 1 / 10 ^ 11, n_newtonIt = 0,
                       n_dR = [], n_sig_VM = replicate (length x) 0,
                       n_eps_h = replicate (length x) 0, n_fext_tilde = ft1,
                       n_fextGlobal = fg1, n_K = K1\<rparr>"
      have e: "fe_nl self x p F ep elementFun materialFun eq spsolve
          = (case newton_loop ?body ?st0 of
               None \<Rightarrow> None
             | Some (Inl e) \<Rightarrow> Some (Inl e)
             | Some (Inr s) \<Rightarrow>
                 Some (Inr (n_self s, fe_U (n_self s), n_dR s, n_sig_VM s,
                            n_fext_tilde s, n_fextGlobal s, n_eps_h s,
                            freedofs (n_self s), n_K s)))"
        using f False by (simp add: fe_nl_def)
      obtain s where run: "newton_loop ?body ?st0 = Some (Inr s)"
        and res: "self2 = n_self s" "U2 = fe_U (n_self s)" "fr = freedofs (n_self s)"
      proof (cases "newton_loop ?body ?st0")
        case None
        with e h show ?thesis by simp
      next
        case (Some r)
        show ?thesis
        proof (cases r)
          case (Inl er)
          with e h Some show ?thesis by simp
        next
          case (Inr s)
          have e': "fe_nl self x p F ep elementFun materialFun eq spsolve
              = Some (Inr (n_self s, fe_U (n_self s), n_dR s, n_sig_VM s,
                            n_fext_tilde s, n_fextGlobal s, n_eps_h s,
                            freedofs (n_self s), n_K s))"
            using e Some Inr by simp
          note te = h[unfolded e' option.inject sum.inject]
          have "self2 = n_self s"
            using arg_cong[OF te, of fst] by (simp only: fst_conv)
          moreover have "U2 = fe_U (n_self s)"
            using arg_cong[OF te, of "\<lambda>t. fst (snd t)"] by (simp only: fst_conv snd_conv)
          moreover have "fr = freedofs (n_self s)"
            using arg_cong[OF te, of "\<lambda>t. fst (snd (snd (snd (snd (snd (snd (snd t)))))))"]
            by (simp only: fst_conv snd_conv)
          moreover have "newton_loop ?body ?st0 = Some (Inr s)"
            using Some Inr by simp
          ultimately show ?thesis by (intro that[of s])
        qed
      qed
      have i0: "?I ?st0"
        using fr by simp
      have "?I s"
        by (rule newton_loop_invariant[OF run, where I = ?I, OF i0]) (rule step)
      then show ?thesis using res by simp
    qed
    then show ?thesis by simp
  qed
  show ?thesis
  proof (intro conjI)
    show "\<forall>self1 U1 ft fg K.
      fe self x p F ep elementFun materialFun eq spsolve = Inr (self1, U1, ft, fg, K)
      \<longrightarrow> fe_U self1 = U1 \<and> freedofs self1 = freedofs self \<and> length U1 = length (fe_U self)
        \<and> (\<forall>i. i \<notin> set (freedofs self) \<longrightarrow> U1 ! i = fe_U self ! i)"
      by (intro allI impI) (rule A)
    show "\<forall>st st' brk.
      newton_body x p F ep elementFun materialFun eq spsolve st = Inr (st', brk)
      \<longrightarrow> freedofs (n_self st') = freedofs (n_self st)
        \<and> length (fe_U (n_self st')) = length (fe_U (n_self st))
        \<and> (\<forall>i. i \<notin> set (freedofs (n_self st))
              \<longrightarrow> fe_U (n_self st') ! i = fe_U (n_self st) ! i)"
      by (intro allI impI) (rule B)
    show "\<forall>self2 U2 dR sv ft fg eh fr K.
      fe_nl self x p F ep elementFun materialFun eq spsolve
        = Some (Inr (self2, U2, dR, sv, ft, fg, eh, fr, K))
      \<longrightarrow> fe_U self2 = U2 \<and> fr = freedofs self \<and> length U2 = length (fe_U self)
        \<and> (\<forall>i. i \<notin> set (freedofs self) \<longrightarrow> U2 ! i = fe_U self ! i)
        \<and> (\<forall>i. i \<notin> set (freedofs self) \<and> fe_U self ! i = 0 \<longrightarrow> U2 ! i = 0)"
      by (intro allI impI) (rule C)
  qed
qed

lemma fe_c_cv:
  "fe fe_c [1] 3 Fc epc (elem_c 1 (1 / 10 ^ 8) 0) () () solve_diag
   = Inr (fe_c\<lparr>fe_U := [0, 0, 0, 0, 0, 1]\<rparr>, [0, 0, 0, 0, 0, 1],
          [0, 0, 0, 0, 0, 0], [0, 0, 0, 0, 0, 1], K_c 1)"
  by (simp add: eval_fe_full K_c_def)

lemma fe_nl_cv:
  "fe_nl fe_c [1] 3 Fc epc (elem_c 1 (1 / 10 ^ 8) 0) () () solve_diag
   = Some (Inr (fe_c\<lparr>fe_U := [0, 0, 0, 0, 0, 1 - 1 / 10 ^ 8]\<rparr>,
                [0, 0, 0, 0, 0, 1 - 1 / 10 ^ 8], [[0, 0, 0, 0, 0, 3 * (1 + 1 / 10 ^ 8)]],
                [sqrt 3], [0, 0, 0, 0, 0, 0], [0, 0, 0, 0, 0, 1], [3], [5], K_c 1))"
proof -
  have st0: "\<lparr>n_self = fe_c\<lparr>fe_U := [0, 0, 0, 0, 0, 1]\<rparr>, n_err = 10 ^ 9, n_TOL = 1 / 10 ^ 11,
        n_newtonIt = 0, n_dR = [], n_sig_VM = replicate (length [1 :: real]) 0,
        n_eps_h = replicate (length [1 :: real]) 0, n_fext_tilde = [0, 0, 0, 0, 0, 0],
        n_fextGlobal = [0, 0, 0, 0, 0, 1], n_K = K_c 1\<rparr> = nl_st0 1"
    by (simp add: nl_st0_def)
  have "fe_nl fe_c [1] 3 Fc epc (elem_c 1 (1 / 10 ^ 8) 0) () () solve_diag
    = Some (Inr (n_self cv_state, fe_U (n_self cv_state), n_dR cv_state, n_sig_VM cv_state,
                 n_fext_tilde cv_state, n_fextGlobal cv_state, n_eps_h cv_state,
                 freedofs (n_self cv_state), n_K cv_state))"
    unfolding fe_nl_def fe_c_cv sum.case prod.case st0 cv_run by simp
  then show ?thesis by (simp add: cv_state_def fe_c_def)
qed

theorem fixed_dofs_unchanged_witness:
  "fe_nl fe_c [1] 3 Fc epc (elem_c 1 (1 / 10 ^ 8) 0) () () solve_diag
   = Some (Inr (fe_c\<lparr>fe_U := [0, 0, 0, 0, 0, 1 - 1 / 10 ^ 8]\<rparr>,
                [0, 0, 0, 0, 0, 1 - 1 / 10 ^ 8], [[0, 0, 0, 0, 0, 3 * (1 + 1 / 10 ^ 8)]],
                [sqrt 3], [0, 0, 0, 0, 0, 0], [0, 0, 0, 0, 0, 1], [3], [5], K_c 1))
   \<and> 0 \<notin> set (freedofs fe_c) \<and> fe_U fe_c ! 0 = 0
   \<and> [0, 0, 0, 0, 0, 1 - 1 / 10 ^ 8] ! 0 = (0 :: real)"
proof -
  have z: "0 \<notin> set (freedofs fe_c) \<and> fe_U fe_c ! 0 = 0"
    by (simp add: fe_c_def)
  from fixed_dofs_unchanged[where elementFun = "elem_c 1 (1 / 10 ^ 8) 0" and self = fe_c
      and x = "[1]" and p = 3 and F = Fc and ep = epc and spsolve = solve_diag
      and materialFun = "()" and eq = "()"]
  have "\<forall>self2 U2 dR sv ft fg eh fr K.
      fe_nl fe_c [1] 3 Fc epc (elem_c 1 (1 / 10 ^ 8) 0) () () solve_diag
        = Some (Inr (self2, U2, dR, sv, ft, fg, eh, fr, K))
      \<longrightarrow> (\<forall>i. i \<notin> set (freedofs fe_c) \<and> fe_U fe_c ! i = 0 \<longrightarrow> U2 ! i = 0)"
    by blast
  from this[rule_format, OF fe_nl_cv z] z fe_nl_cv
  show ?thesis by (simp only: simp_thms)
qed

end
